theory Spec2Isabelle
  imports Main "HOL-Library.AList"
begin

chapter \<open>The data model of SAPI: \<^verbatim>\<open>lib/model.js\<close>\<close>

text \<open>
  Applications own services, services own instances, and an instance is deployed as a
  zone. This theory embeds the operations of \<^verbatim>\<open>lib/model.js\<close> as functions on an
  explicit world (the store, the directory, the image registry, the provisioner) and
  proves the properties the specification states of them: the precedence of parameters,
  the referential checks of the create operations, create followed by get, the
  initialization of the buckets and the stages of a deployment.
\<close>

section \<open>JavaScript values, objects and errors\<close>

text \<open>
  The records handled by \<^verbatim>\<open>lib/model.js\<close> are plain JavaScript objects that arrive as
  JSON and are stored as JSON. A value is therefore a JSON value; an object is an
  association list from property names to values. Reading a property that is not there
  gives \<^verbatim>\<open>undefined\<close>: a variable or a property read is a \<open>jsval option\<close>, with
  \<open>None\<close> for \<^verbatim>\<open>undefined\<close>. Numbers are integers here: the code only tests them for
  truthiness and copies them.
\<close>

datatype jsval =
    JNull
  | JBool bool
  | JNum int
  | JStr string
  | JArr "jsval list"
  | JObj "(string \<times> jsval) list"

type_synonym obj = "(string \<times> jsval) list"

text \<open>An error object: its \<^verbatim>\<open>name\<close> and its \<^verbatim>\<open>message\<close>.\<close>

datatype jserror = JSError (err_name: string) (err_message: string)

text \<open>\<^verbatim>\<open>if (v)\<close> and \<^verbatim>\<open>!v\<close>: JavaScript truthiness.\<close>

fun truthy :: "jsval option \<Rightarrow> bool" where
  "truthy None = False"
| "truthy (Some JNull) = False"
| "truthy (Some (JBool b)) = b"
| "truthy (Some (JNum n)) = (n \<noteq> 0)"
| "truthy (Some (JStr s)) = (s \<noteq> [])"
| "truthy (Some (JArr xs)) = True"
| "truthy (Some (JObj kvs)) = True"

fun is_string :: "jsval option \<Rightarrow> bool" where
  "is_string (Some (JStr s)) = True"
| "is_string _ = False"

text \<open>\<^verbatim>\<open>assert.string(v, name)\<close> of assert-plus: throws unless \<open>v\<close> is a string.\<close>

definition assert_string :: "jsval option \<Rightarrow> string \<Rightarrow> jserror option" where
  "assert_string v name =
     (if is_string v then None
      else Some (JSError ''AssertionError'' (name @ '' (string) is required'')))"

text \<open>
  \<^verbatim>\<open>v.k\<close> for a variable \<open>v\<close>: a TypeError on \<^verbatim>\<open>undefined\<close> and \<^verbatim>\<open>null\<close>, the property
  of an object, and \<^verbatim>\<open>undefined\<close> for the property names read in this file on any
  other value.
\<close>

definition cannot_read :: "string \<Rightarrow> string \<Rightarrow> jserror" where
  "cannot_read k what =
     JSError ''TypeError''
       (''Cannot read property '' @ [CHR 0x27] @ k @ [CHR 0x27] @ '' of '' @ what)"

fun member :: "jsval option \<Rightarrow> string \<Rightarrow> jserror + jsval option" where
  "member None k = Inl (cannot_read k ''undefined'')"
| "member (Some JNull) k = Inl (cannot_read k ''null'')"
| "member (Some (JObj kvs)) k = Inr (map_of kvs k)"
| "member (Some v) k = Inr None"

text \<open>Decimal notation of an array index, as \<^verbatim>\<open>Object.keys\<close> lists it.\<close>

function show_nat :: "nat \<Rightarrow> string" where
  "show_nat n =
     (if n < 10 then [char_of (48 + n)]
      else show_nat (n div 10) @ [char_of (48 + n mod 10)])"
  by pat_completeness auto
termination
  by (relation "measure id") auto

section \<open>The external collaborators\<close>

text \<open>
  The key-value store (moray), the directory (UFDS), the image registry (IMGAPI) and
  the provisioner (VMAPI) are clients of other services. The world holds what they
  answer from, a \<open>fault\<close> that makes any single call fail with an error of the
  environment's choice, and the list of calls the model has made, in order.
\<close>

datatype call =
    GetBucket string
  | CreateBucket string obj
  | FindObjects string string
  | PutObject string string obj
  | GetUser string
  | GetImage string
  | CreateVm obj

record world =
  buckets :: "(string \<times> (string \<times> obj) list) list"
  users :: "string list"
  images :: "string list"
  fault :: "call \<Rightarrow> jserror option"
  calls :: "call list"

definition issue :: "world \<Rightarrow> call \<Rightarrow> world" where
  "issue w c = w\<lparr>calls := calls w @ [c]\<rparr>"

definition bucket_missing :: "string \<Rightarrow> jserror" where
  "bucket_missing name = JSError ''BucketNotFoundError'' (name @ '' does not exist'')"

definition moray_getBucket :: "world \<Rightarrow> string \<Rightarrow> world \<times> jserror option" where
  "moray_getBucket w name =
     (case fault w (GetBucket name) of
        Some e \<Rightarrow> (issue w (GetBucket name), Some e)
      | None \<Rightarrow>
          (case map_of (buckets w) name of
             None \<Rightarrow> (issue w (GetBucket name), Some (bucket_missing name))
           | Some rows \<Rightarrow> (issue w (GetBucket name), None)))"

definition moray_createBucket :: "world \<Rightarrow> string \<Rightarrow> obj \<Rightarrow> world \<times> jserror option" where
  "moray_createBucket w name cfg =
     (case fault w (CreateBucket name cfg) of
        Some e \<Rightarrow> (issue w (CreateBucket name cfg), Some e)
      | None \<Rightarrow>
          (case map_of (buckets w) name of
             Some rows \<Rightarrow>
               (issue w (CreateBucket name cfg),
                Some (JSError ''BucketConflictError'' (name @ '' already exists'')))
           | None \<Rightarrow>
               ((issue w (CreateBucket name cfg))\<lparr>buckets := buckets w @ [(name, [])]\<rparr>,
                None)))"

text \<open>
  The store's query language is LDAP filters. The two filters this file sends are
  \<^verbatim>\<open>(uuid=*)\<close> and \<^verbatim>\<open>(uuid=<text>)\<close>: in the value of a filter \<^verbatim>\<open>*\<close> stands for any
  run of characters, and \<^verbatim>\<open>(uuid=*)\<close> alone asks for every record that has a
  \<^verbatim>\<open>uuid\<close>. A filter of another shape, or one whose value holds a parenthesis or a
  backslash, is answered with an error.
\<close>

fun glob :: "string \<Rightarrow> string \<Rightarrow> bool" where
  "glob [] s = (s = [])"
| "glob (p # ps) [] = (p = CHR ''*'' \<and> glob ps [])"
| "glob (p # ps) (c # cs) =
     (if p = CHR ''*'' then glob ps (c # cs) \<or> glob (p # ps) cs
      else p = c \<and> glob ps cs)"

definition filter_pattern :: "string \<Rightarrow> string option" where
  "filter_pattern f =
     (if 7 \<le> length f \<and> take 6 f = ''(uuid='' \<and> last f = CHR '')''
      then (let p = butlast (drop 6 f)
            in if CHR ''('' \<in> set p \<or> CHR '')'' \<in> set p \<or> CHR 0x5C \<in> set p
               then None else Some p)
      else None)"

definition uuid_matches :: "string \<Rightarrow> obj \<Rightarrow> bool" where
  "uuid_matches pat v =
     (case map_of v ''uuid'' of
        None \<Rightarrow> False
      | Some (JStr s) \<Rightarrow> glob pat s
      | Some other \<Rightarrow> pat = ''*'')"

definition moray_findObjects :: "world \<Rightarrow> string \<Rightarrow> string \<Rightarrow> world \<times> (jserror + obj list)" where
  "moray_findObjects w bucket flt =
     (case fault w (FindObjects bucket flt) of
        Some e \<Rightarrow> (issue w (FindObjects bucket flt), Inl e)
      | None \<Rightarrow>
          (case map_of (buckets w) bucket of
             None \<Rightarrow> (issue w (FindObjects bucket flt), Inl (bucket_missing bucket))
           | Some rows \<Rightarrow>
               (case filter_pattern flt of
                  None \<Rightarrow>
                    (issue w (FindObjects bucket flt),
                     Inl (JSError ''InvalidQueryError'' flt))
                | Some pat \<Rightarrow>
                    (issue w (FindObjects bucket flt),
                     Inr (map snd (filter (\<lambda>row. uuid_matches pat (snd row)) rows))))))"

text \<open>\<^verbatim>\<open>putObject(bucket, key, value)\<close>: an upsert by key.\<close>

definition moray_putObject :: "world \<Rightarrow> string \<Rightarrow> string \<Rightarrow> obj \<Rightarrow> world \<times> jserror option" where
  "moray_putObject w bucket key v =
     (case fault w (PutObject bucket key v) of
        Some e \<Rightarrow> (issue w (PutObject bucket key v), Some e)
      | None \<Rightarrow>
          (case map_of (buckets w) bucket of
             None \<Rightarrow> (issue w (PutObject bucket key v), Some (bucket_missing bucket))
           | Some rows \<Rightarrow>
               ((issue w (PutObject bucket key v))
                  \<lparr>buckets := AList.update bucket (AList.update key v rows) (buckets w)\<rparr>,
                None)))"

definition not_found :: "string \<Rightarrow> jserror" where
  "not_found what = JSError ''ResourceNotFoundError'' (what @ '' not found'')"

definition ufds_getUser :: "world \<Rightarrow> string \<Rightarrow> world \<times> jserror option \<times> jsval option" where
  "ufds_getUser w uuid =
     (case fault w (GetUser uuid) of
        Some e \<Rightarrow> (issue w (GetUser uuid), Some e, None)
      | None \<Rightarrow>
          if uuid \<in> set (users w)
          then (issue w (GetUser uuid), None, Some (JObj [(''uuid'', JStr uuid)]))
          else (issue w (GetUser uuid), Some (not_found uuid), None))"

definition imgapi_getImage :: "world \<Rightarrow> string \<Rightarrow> world \<times> jserror option \<times> jsval option" where
  "imgapi_getImage w uuid =
     (case fault w (GetImage uuid) of
        Some e \<Rightarrow> (issue w (GetImage uuid), Some e, None)
      | None \<Rightarrow>
          if uuid \<in> set (images w)
          then (issue w (GetImage uuid), None, Some (JObj [(''uuid'', JStr uuid)]))
          else (issue w (GetImage uuid), Some (not_found uuid), None))"

definition vmapi_createVm :: "world \<Rightarrow> obj \<Rightarrow> world \<times> jserror option" where
  "vmapi_createVm w params = (issue w (CreateVm params), fault w (CreateVm params))"

section \<open>Control flow: callbacks and \<^verbatim>\<open>async.waterfall\<close>\<close>

text \<open>
  What a caller observes of an operation \<^verbatim>\<open>op(args, cb)\<close>: every call of \<^verbatim>\<open>cb\<close>
  with its arguments \<^verbatim>\<open>(err, result)\<close>, in order, and the exception that escaped, if
  one did.
\<close>

record outcome =
  cb_calls :: "(jserror option \<times> jsval option) list"
  uncaught :: "jserror option"

text \<open>
  What one task of a waterfall does with its callback \<^verbatim>\<open>subcb\<close>: \<^verbatim>\<open>subcb(null)\<close>,
  \<^verbatim>\<open>subcb(err)\<close>, an exception, or \<^verbatim>\<open>subcb(err)\<close> followed, because the task does
  not return there, by an exception or by \<^verbatim>\<open>subcb(null)\<close>.
\<close>

datatype step =
    Next
  | Fail jserror
  | Throw jserror
  | FailThenThrow jserror jserror
  | FailThenNext jserror

text \<open>
  \<^verbatim>\<open>async.waterfall(tasks, final)\<close>: the tasks run in order; \<^verbatim>\<open>subcb(err)\<close> calls
  \<^verbatim>\<open>final(err)\<close> and disarms it, \<^verbatim>\<open>subcb(null)\<close> starts the next task, and after the
  last task calls \<^verbatim>\<open>final(null)\<close>. \<open>live\<close> says that \<^verbatim>\<open>final\<close> is still armed: a
  task that calls \<^verbatim>\<open>subcb(err)\<close> and then \<^verbatim>\<open>subcb(null)\<close> still starts the next task,
  which can no longer reach \<^verbatim>\<open>final\<close>. An exception ends the run. The result is the
  state, the errors \<^verbatim>\<open>final\<close> was called with, and the exception that escaped.
\<close>

fun waterfall ::
  "('s \<Rightarrow> 's \<times> step) list \<Rightarrow> bool \<Rightarrow> 's \<Rightarrow> 's \<times> jserror option list \<times> jserror option"
where
  "waterfall [] live s = (s, if live then [None] else [], None)"
| "waterfall (t # ts) live s =
     (case t s of
        (s', Next) \<Rightarrow> waterfall ts live s'
      | (s', Fail e) \<Rightarrow> (s', if live then [Some e] else [], None)
      | (s', Throw x) \<Rightarrow> (s', [], Some x)
      | (s', FailThenThrow e x) \<Rightarrow> (s', if live then [Some e] else [], Some x)
      | (s', FailThenNext e) \<Rightarrow>
          (case waterfall ts False s' of
             (s'', cs, x) \<Rightarrow> (s'', (if live then [Some e] else []) @ cs, x)))"

section \<open>Initialization\<close>

definition APPLICATIONS :: string where "APPLICATIONS = ''sapi_applications''"
definition SERVICES :: string where "SERVICES = ''sapi_services''"
definition INSTANCES :: string where "INSTANCES = ''sapi_instances''"

text \<open>The bucket configuration of \<^verbatim>\<open>initBuckets\<close>: a unique string index on \<^verbatim>\<open>uuid\<close>.\<close>

definition bucket_cfg :: obj where
  "bucket_cfg =
     [(''index'', JObj [(''uuid'', JObj [(''type'', JStr ''string''), (''unique'', JBool True)])])]"

text \<open>
  \<^verbatim>\<open>createBucket(name, cfg, cb)\<close> waits for two answers of the store. Where it
  stands: the answer to \<^verbatim>\<open>getBucket\<close> is awaited, the answer to \<^verbatim>\<open>createBucket\<close> is
  awaited, or \<^verbatim>\<open>cb\<close> has been called.
\<close>

datatype bucket_task = AwaitGet | AwaitCreate | Done "jserror option"

definition createBucket_got :: "world \<Rightarrow> string \<Rightarrow> world \<times> bucket_task" where
  "createBucket_got w name =
     (case moray_getBucket w name of
        (w', None) \<Rightarrow> (w', Done None)
      | (w', Some err) \<Rightarrow>
          if err_name err \<noteq> ''BucketNotFoundError'' then (w', Done (Some err))
          else (w', AwaitCreate))"

definition createBucket_created :: "world \<Rightarrow> string \<Rightarrow> obj \<Rightarrow> world \<times> jserror option" where
  "createBucket_created w name cfg =
     (case moray_createBucket w name cfg of
        (w', Some suberr) \<Rightarrow> (w', Some (JSError ''Error'' ''failed to create bucket''))
      | (w', None) \<Rightarrow> (w', None))"

fun createBucket_step :: "obj \<Rightarrow> world \<Rightarrow> string \<times> bucket_task \<Rightarrow> world \<times> bucket_task" where
  "createBucket_step cfg w (name, AwaitGet) = createBucket_got w name"
| "createBucket_step cfg w (name, AwaitCreate) =
     (case createBucket_created w name cfg of (w', r) \<Rightarrow> (w', Done r))"
| "createBucket_step cfg w (name, Done r) = (w, Done r)"

text \<open>\<^verbatim>\<open>createBucket\<close> on its own: both answers, one after the other.\<close>

definition createBucket :: "world \<Rightarrow> string \<Rightarrow> obj \<Rightarrow> world \<times> jserror option" where
  "createBucket w name cfg =
     (case createBucket_got w name of
        (w', Done r) \<Rightarrow> (w', r)
      | (w', awaiting) \<Rightarrow> createBucket_created w' name cfg)"

text \<open>
  \<^verbatim>\<open>vasync.forEachParallel\<close> starts \<^verbatim>\<open>createBucket\<close> for every bucket at once; the
  store's answers then arrive in an order the program does not choose. A schedule is
  that order: the list of the tasks (by position) whose next answer arrives. When every
  task has called back, the final callback gets an error if one of them failed.
\<close>

fun run_schedule ::
  "obj \<Rightarrow> nat list \<Rightarrow> world \<Rightarrow> (string \<times> bucket_task) list \<Rightarrow> world \<times> (string \<times> bucket_task) list"
where
  "run_schedule cfg [] w ts = (w, ts)"
| "run_schedule cfg (i # sched) w ts =
     (if i < length ts
      then (case createBucket_step cfg w (ts ! i) of
              (w', st) \<Rightarrow> run_schedule cfg sched w' (ts[i := (fst (ts ! i), st)]))
      else run_schedule cfg sched w ts)"

fun task_done :: "string \<times> bucket_task \<Rightarrow> bool" where
  "task_done (name, Done r) = True"
| "task_done (name, st) = False"

fun task_errors :: "(string \<times> bucket_task) list \<Rightarrow> jserror list" where
  "task_errors [] = []"
| "task_errors ((name, Done (Some e)) # ts) = e # task_errors ts"
| "task_errors (t # ts) = task_errors ts"

definition multi_error :: "jserror list \<Rightarrow> jserror option" where
  "multi_error es =
     (case es of [] \<Rightarrow> None | e # rest \<Rightarrow> Some (JSError ''MultiError'' (err_message e)))"

definition forEachParallel ::
  "obj \<Rightarrow> nat list \<Rightarrow> string list \<Rightarrow> world \<Rightarrow> world \<times> (string \<times> bucket_task) list"
where
  "forEachParallel cfg sched inputs w =
     run_schedule cfg sched w (map (\<lambda>bucket. (bucket, AwaitGet)) inputs)"

definition initBuckets :: "nat list \<Rightarrow> world \<Rightarrow> world \<times> outcome" where
  "initBuckets sched w =
     (case forEachParallel bucket_cfg sched [APPLICATIONS, SERVICES, INSTANCES] w of
        (w', ts) \<Rightarrow>
          if list_all task_done ts
          then (w', \<lparr>cb_calls = [(multi_error (task_errors ts), None)], uncaught = None\<rparr>)
          else (w', \<lparr>cb_calls = [], uncaught = None\<rparr>))"

section \<open>Helper functions\<close>

text \<open>The string of a value that an \<^verbatim>\<open>assert.string\<close> has let through.\<close>

fun string_of :: "jsval option \<Rightarrow> string" where
  "string_of (Some (JStr s)) = s"
| "string_of v = []"

definition validOwnerUUID :: "world \<Rightarrow> string \<Rightarrow> world \<times> jserror option \<times> bool" where
  "validOwnerUUID w owner_uuid =
     (case ufds_getUser w owner_uuid of
        (w', Some err, user) \<Rightarrow> (w', None, False)
      | (w', None, user) \<Rightarrow> (w', None, True))"

text \<open>
  \<^verbatim>\<open>findObjects\<close> collects the records of the store's answer and calls back with the
  error or with the list.
\<close>

definition findObjects :: "world \<Rightarrow> string \<Rightarrow> string \<Rightarrow> world \<times> (jserror + obj list)" where
  "findObjects w bucket flt = moray_findObjects w bucket flt"

definition listObjects :: "world \<Rightarrow> string \<Rightarrow> world \<times> (jserror + obj list)" where
  "listObjects w bucket = findObjects w bucket ''(uuid=*)''"

text \<open>
  \<^verbatim>\<open>getObject\<close> calls back with \<^verbatim>\<open>(err)\<close>, or with \<^verbatim>\<open>(null, objs[0])\<close>, or with
  \<^verbatim>\<open>(null, null)\<close> when the answer is empty. The filter is
  \<^verbatim>\<open>sprintf('(uuid=%s)', uuid)\<close>.
\<close>

definition uuid_filter :: "string \<Rightarrow> string" where
  "uuid_filter uuid = ''(uuid='' @ uuid @ '')''"

definition getObject :: "world \<Rightarrow> string \<Rightarrow> string \<Rightarrow> world \<times> jserror option \<times> jsval option" where
  "getObject w bucket uuid =
     (case findObjects w bucket (uuid_filter uuid) of
        (w', Inl err) \<Rightarrow> (w', Some err, None)
      | (w', Inr objs) \<Rightarrow>
          (w', None, Some (case objs of [] \<Rightarrow> JNull | x # rest \<Rightarrow> JObj x)))"

text \<open>
  \<^verbatim>\<open>if (!rec.uuid) rec.uuid = node_uuid.v4()\<close>: the assignment changes the caller's
  object. \<open>v4\<close> is the identifier the generator returns.
\<close>

definition assign_uuid :: "string \<Rightarrow> obj \<Rightarrow> obj" where
  "assign_uuid v4 rec =
     (if \<not> truthy (map_of rec ''uuid'') then AList.update ''uuid'' (JStr v4) rec else rec)"

text \<open>
  The last task of every create: \<^verbatim>\<open>putObject(bucket, rec.uuid, rec)\<close>. The keys of
  the store are strings; its client checks the key it is given and throws on any
  other value.
\<close>

definition put_record :: "string \<Rightarrow> obj \<Rightarrow> world \<Rightarrow> world \<times> step" where
  "put_record bucket rec w =
     (case map_of rec ''uuid'' of
        Some (JStr key) \<Rightarrow>
          (case moray_putObject w bucket key rec of
             (w', Some err) \<Rightarrow> (w', Fail err)
           | (w', None) \<Rightarrow> (w', Next))
      | other \<Rightarrow> (w, Throw (JSError ''AssertionError'' ''key (string) is required'')))"

text \<open>The errors the referential checks build: \<^verbatim>\<open>new Error(msg)\<close>.\<close>

definition doesnt_exist :: "string \<Rightarrow> string \<Rightarrow> jserror" where
  "doesnt_exist what uuid = JSError ''Error'' (what @ '' '' @ uuid @ '' doesn't exist'')"

definition invalid_user :: "string \<Rightarrow> jserror" where
  "invalid_user owner_uuid = JSError ''Error'' (''invalid user: '' @ owner_uuid)"

text \<open>The create operations return the world, the caller's record and the outcome.\<close>

definition thrown :: "jserror \<Rightarrow> outcome" where
  "thrown x = \<lparr>cb_calls = [], uncaught = Some x\<rparr>"

definition finished :: "jserror option list \<Rightarrow> jsval option \<Rightarrow> jserror option \<Rightarrow> outcome" where
  "finished errs result x = \<lparr>cb_calls = map (\<lambda>err. (err, result)) errs, uncaught = x\<rparr>"

section \<open>Applications\<close>

definition check_owner :: "string \<Rightarrow> world \<Rightarrow> world \<times> step" where
  "check_owner owner_uuid w =
     (case validOwnerUUID w owner_uuid of
        (w', err, valid) \<Rightarrow>
          if valid then (w', Next)
          else (w', Fail (invalid_user owner_uuid)))"

definition createApplication :: "world \<Rightarrow> string \<Rightarrow> obj \<Rightarrow> world \<times> obj \<times> outcome" where
  "createApplication w v4 app =
     (case assert_string (map_of app ''name'') ''app.name'' of
        Some x \<Rightarrow> (w, app, thrown x)
      | None \<Rightarrow>
     (case assert_string (map_of app ''owner_uuid'') ''app.owner_uuid'' of
        Some x \<Rightarrow> (w, app, thrown x)
      | None \<Rightarrow>
     (case waterfall
             [check_owner (string_of (map_of app ''owner_uuid'')),
              put_record APPLICATIONS (assign_uuid v4 app)] True w of
        (w', errs, x) \<Rightarrow>
          (w', assign_uuid v4 app, finished errs (Some (JObj (assign_uuid v4 app))) x))))"

definition listApplications :: "world \<Rightarrow> world \<times> (jserror + obj list)" where
  "listApplications w = listObjects w APPLICATIONS"

definition getApplication :: "world \<Rightarrow> string \<Rightarrow> world \<times> jserror option \<times> jsval option" where
  "getApplication w uuid = getObject w APPLICATIONS uuid"

section \<open>Services\<close>

definition check_application :: "string \<Rightarrow> world \<Rightarrow> world \<times> step" where
  "check_application app_uuid w =
     (case getApplication w app_uuid of
        (w', err, app) \<Rightarrow>
          if err \<noteq> None \<or> \<not> truthy app
          then (w', Fail (doesnt_exist ''application'' app_uuid))
          else (w', Next))"

definition check_image :: "string \<Rightarrow> world \<Rightarrow> world \<times> step" where
  "check_image image_uuid w =
     (case imgapi_getImage w image_uuid of
        (w', err, img) \<Rightarrow>
          if err \<noteq> None \<or> \<not> truthy img
          then (w', Fail (doesnt_exist ''image'' image_uuid))
          else (w', Next))"

definition createService :: "world \<Rightarrow> string \<Rightarrow> obj \<Rightarrow> world \<times> obj \<times> outcome" where
  "createService w v4 service =
     (case assert_string (map_of service ''name'') ''service.name'' of
        Some x \<Rightarrow> (w, service, thrown x)
      | None \<Rightarrow>
     (case assert_string (map_of service ''application_uuid'') ''service.application_uuid'' of
        Some x \<Rightarrow> (w, service, thrown x)
      | None \<Rightarrow>
     (case assert_string (map_of service ''image_uuid'') ''service.image_uuid'' of
        Some x \<Rightarrow> (w, service, thrown x)
      | None \<Rightarrow>
     (case waterfall
             [check_application (string_of (map_of service ''application_uuid'')),
              check_image (string_of (map_of service ''image_uuid'')),
              put_record SERVICES (assign_uuid v4 service)] True w of
        (w', errs, x) \<Rightarrow>
          (w', assign_uuid v4 service,
           finished errs (Some (JObj (assign_uuid v4 service))) x)))))"

definition listServices :: "world \<Rightarrow> world \<times> (jserror + obj list)" where
  "listServices w = listObjects w SERVICES"

definition getService :: "world \<Rightarrow> string \<Rightarrow> world \<times> jserror option \<times> jsval option" where
  "getService w uuid = getObject w SERVICES uuid"

section \<open>Instances\<close>

definition check_service :: "string \<Rightarrow> world \<Rightarrow> world \<times> step" where
  "check_service svc_uuid w =
     (case getService w svc_uuid of
        (w', err, svc) \<Rightarrow>
          if err \<noteq> None \<or> \<not> truthy svc
          then (w', Fail (doesnt_exist ''service'' svc_uuid))
          else (w', Next))"

definition createInstance :: "world \<Rightarrow> string \<Rightarrow> obj \<Rightarrow> world \<times> obj \<times> outcome" where
  "createInstance w v4 instance =
     (case assert_string (map_of instance ''name'') ''instance.name'' of
        Some x \<Rightarrow> (w, instance, thrown x)
      | None \<Rightarrow>
     (case assert_string (map_of instance ''service_uuid'') ''instance.service_uuid'' of
        Some x \<Rightarrow> (w, instance, thrown x)
      | None \<Rightarrow>
     (case waterfall
             [check_service (string_of (map_of instance ''service_uuid'')),
              put_record INSTANCES (assign_uuid v4 instance)] True w of
        (w', errs, x) \<Rightarrow>
          (w', assign_uuid v4 instance,
           finished errs (Some (JObj (assign_uuid v4 instance))) x))))"

definition listInstances :: "world \<Rightarrow> world \<times> (jserror + obj list)" where
  "listInstances w = listObjects w INSTANCES"

definition getInstance :: "world \<Rightarrow> string \<Rightarrow> world \<times> jserror option \<times> jsval option" where
  "getInstance w uuid = getObject w INSTANCES uuid"

section \<open>Deployment\<close>

text \<open>
  One pass of \<^verbatim>\<open>assembleParams\<close>:
  \<^verbatim>\<open>if (src) Object.keys(src).forEach(function (key) { params[key] = src[key]; })\<close>.
  An assignment overwrites the property where it is and adds it last otherwise.
  \<^verbatim>\<open>Object.keys\<close> lists the properties of an object and the indices of an array, and
  throws a TypeError on any other value (ECMAScript 5).
\<close>

definition copy_params :: "jsval option \<Rightarrow> obj \<Rightarrow> jserror + obj" where
  "copy_params src params =
     (if \<not> truthy src then Inr params
      else (case src of
              Some (JObj kvs) \<Rightarrow>
                Inr (fold (\<lambda>key acc. case map_of kvs key of
                                        None \<Rightarrow> acc
                                      | Some v \<Rightarrow> AList.update key v acc)
                          (map fst kvs) params)
            | Some (JArr xs) \<Rightarrow>
                Inr (fold (\<lambda>i acc. AList.update (show_nat i) (xs ! i) acc)
                          [0..<length xs] params)
            | other \<Rightarrow> Inl (JSError ''TypeError'' ''Object.keys called on non-object'')))"

definition and_then :: "'e + 'a \<Rightarrow> ('a \<Rightarrow> 'e + 'b) \<Rightarrow> 'e + 'b" where
  "and_then r f = (case r of Inl e \<Rightarrow> Inl e | Inr x \<Rightarrow> f x)"

definition asserted :: "jsval option \<Rightarrow> string \<Rightarrow> jserror + string" where
  "asserted v name =
     (case assert_string v name of Some x \<Rightarrow> Inl x | None \<Rightarrow> Inr (string_of v))"

definition assembleParams :: "jsval option \<Rightarrow> jsval option \<Rightarrow> jsval option \<Rightarrow> jserror + obj" where
  "assembleParams app svc inst =
     and_then (member app ''params'') (\<lambda>app_params.
     and_then (copy_params app_params []) (\<lambda>params1.
     and_then (member svc ''params'') (\<lambda>svc_params.
     and_then (copy_params svc_params params1) (\<lambda>params2.
     and_then (member inst ''params'') (\<lambda>inst_params.
     and_then (copy_params inst_params params2) (\<lambda>params3.
     and_then (member app ''owner_uuid'') (\<lambda>owner.
     and_then (asserted owner ''app.owner_uuid'') (\<lambda>owner_uuid.
     and_then (member svc ''image_uuid'') (\<lambda>img.
     and_then (asserted img ''svc.image_uuid'') (\<lambda>image_uuid.
     and_then (member inst ''uuid'') (\<lambda>ident.
     and_then (asserted ident ''inst.uuid'') (\<lambda>uuid.
       Inr (AList.update ''uuid'' (JStr uuid)
             (AList.update ''image_uuid'' (JStr image_uuid)
               (AList.update ''owner_uuid'' (JStr owner_uuid) params3)))))))))))))))"

text \<open>The fields \<^verbatim>\<open>deployZone\<close> sets on the parameters before it calls the provisioner.\<close>

definition zone_fields :: "obj \<Rightarrow> obj" where
  "zone_fields params =
     AList.update ''server_uuid'' (JStr ''44454c4c-4800-1034-804a-b2c04f354d31'')
       (AList.update ''networks'' (JArr [JStr ''cda22a50-15bd-43cf-b379-be0cbac60cb4''])
         (AList.update ''ram'' (JNum 256)
           (AList.update ''brand'' (JStr ''joyent-minimal'') params)))"

definition deployZone :: "world \<Rightarrow> obj \<Rightarrow> world \<times> jserror option" where
  "deployZone w params = vmapi_createVm w (zone_fields params)"

text \<open>
  The variables the tasks of \<^verbatim>\<open>deployInstance\<close> share: \<^verbatim>\<open>service\<close> and
  \<^verbatim>\<open>application\<close>, declared without a value.
\<close>

record deploy_state =
  dworld :: world
  service :: "jsval option"
  application :: "jsval option"

text \<open>
  The first two tasks do not return after \<^verbatim>\<open>subcb(suberr)\<close>: the statements after
  the \<^verbatim>\<open>if\<close> run in both cases.
\<close>

definition after_error :: "jserror option \<Rightarrow> step \<Rightarrow> step" where
  "after_error suberr rest =
     (case suberr of
        None \<Rightarrow> rest
      | Some e \<Rightarrow>
          (case rest of
             Next \<Rightarrow> FailThenNext e
           | Throw x \<Rightarrow> FailThenThrow e x
           | other \<Rightarrow> other))"

definition resolve_service :: "obj \<Rightarrow> deploy_state \<Rightarrow> deploy_state \<times> step" where
  "resolve_service inst st =
     (case getService (dworld st) (string_of (map_of inst ''service_uuid'')) of
        (w', suberr, result) \<Rightarrow>
          (case member result ''application_uuid'' of
             Inl type_error \<Rightarrow>
               (st\<lparr>dworld := w', service := result\<rparr>, after_error suberr (Throw type_error))
           | Inr v \<Rightarrow>
               (case assert_string v ''undefined'' of
                  Some x \<Rightarrow> (st\<lparr>dworld := w', service := result\<rparr>, after_error suberr (Throw x))
                | None \<Rightarrow> (st\<lparr>dworld := w', service := result\<rparr>, after_error suberr Next))))"

definition resolve_application :: "deploy_state \<Rightarrow> deploy_state \<times> step" where
  "resolve_application st =
     (case member (service st) ''application_uuid'' of
        Inl type_error \<Rightarrow> (st, Throw type_error)
      | Inr v \<Rightarrow>
          (case getApplication (dworld st) (string_of v) of
             (w', suberr, result) \<Rightarrow>
               (st\<lparr>dworld := w', application := result\<rparr>, after_error suberr Next)))"

definition provision :: "obj \<Rightarrow> deploy_state \<Rightarrow> deploy_state \<times> step" where
  "provision inst st =
     (case assembleParams (application st) (service st) (Some (JObj inst)) of
        Inl x \<Rightarrow> (st, Throw x)
      | Inr params \<Rightarrow>
          (case deployZone (dworld st) params of
             (w', Some err) \<Rightarrow> (st\<lparr>dworld := w'\<rparr>, Fail err)
           | (w', None) \<Rightarrow> (st\<lparr>dworld := w'\<rparr>, Next)))"

definition deployInstance :: "world \<Rightarrow> obj \<Rightarrow> world \<times> outcome" where
  "deployInstance w inst =
     (case assert_string (map_of inst ''service_uuid'') ''instance.service_uuid'' of
        Some x \<Rightarrow> (w, thrown x)
      | None \<Rightarrow>
          (case waterfall [resolve_service inst, resolve_application, provision inst] True
                  \<lparr>dworld = w, service = None, application = None\<rparr> of
             (st, errs, x) \<Rightarrow> (dworld st, finished errs None x)))"

section \<open>Vocabulary of the properties\<close>

text \<open>
  A \<^verbatim>\<open>params\<close> property as the data model has it: a map, or absent (any falsy
  value counts as absent, as \<^verbatim>\<open>if (rec.params)\<close> reads it), and the map it stands for.
\<close>

fun params_ok :: "jsval option \<Rightarrow> bool" where
  "params_ok (Some (JObj kvs)) = True"
| "params_ok v = (\<not> truthy v)"

fun as_map :: "jsval option \<Rightarrow> (string \<rightharpoonup> jsval)" where
  "as_map (Some (JObj kvs)) = map_of kvs"
| "as_map v = Map.empty"

text \<open>The calls an operation made: those a world has beyond the world it started from.\<close>

definition new_calls :: "world \<Rightarrow> world \<Rightarrow> call list" where
  "new_calls w w' = drop (length (calls w)) (calls w')"

text \<open>One call of the callback and no exception.\<close>

definition called :: "jserror option \<Rightarrow> jsval option \<Rightarrow> outcome" where
  "called err result = \<lparr>cb_calls = [(err, result)], uncaught = None\<rparr>"

text \<open>
  The referential checks as the create operations read them: the lookup gives no error
  and a truthy result (\<^verbatim>\<open>err || !app\<close> is false); the owner check is the boolean of
  \<^verbatim>\<open>validOwnerUUID\<close>.
\<close>

definition owner_valid :: "world \<Rightarrow> string \<Rightarrow> bool" where
  "owner_valid w owner_uuid = (case validOwnerUUID w owner_uuid of (w', err, valid) \<Rightarrow> valid)"

definition application_exists :: "world \<Rightarrow> string \<Rightarrow> bool" where
  "application_exists w uuid =
     (case getApplication w uuid of (w', err, app) \<Rightarrow> err = None \<and> truthy app)"

definition image_exists :: "world \<Rightarrow> string \<Rightarrow> bool" where
  "image_exists w uuid =
     (case imgapi_getImage w uuid of (w', err, img) \<Rightarrow> err = None \<and> truthy img)"

definition service_exists :: "world \<Rightarrow> string \<Rightarrow> bool" where
  "service_exists w uuid =
     (case getService w uuid of (w', err, svc) \<Rightarrow> err = None \<and> truthy svc)"

text \<open>
  An identifier without the characters the filter language reads as syntax, and a bucket
  whose every record is stored under its own \<^verbatim>\<open>uuid\<close>, as every \<^verbatim>\<open>putObject\<close> of this
  file stores it.
\<close>

definition plain :: "string \<Rightarrow> bool" where
  "plain s = (CHR ''*'' \<notin> set s \<and> CHR ''('' \<notin> set s \<and> CHR '')'' \<notin> set s \<and> CHR 0x5C \<notin> set s)"

fun keyed_by_uuid :: "(string \<times> obj) list \<Rightarrow> bool" where
  "keyed_by_uuid [] = True"
| "keyed_by_uuid ((k, v) # rows) = (map_of v ''uuid'' = Some (JStr k) \<and> keyed_by_uuid rows)"

text \<open>The requests to the provisioner among a list of calls.\<close>

fun is_createVm :: "call \<Rightarrow> bool" where
  "is_createVm (CreateVm params) = True"
| "is_createVm c = False"

text \<open>
  A bucket is there; a call creates a bucket; a schedule lets every one of \<open>n\<close> tasks
  receive both of its answers.
\<close>

definition bucket_exists :: "world \<Rightarrow> string \<Rightarrow> bool" where
  "bucket_exists w name = (map_of (buckets w) name \<noteq> None)"

fun is_createBucket :: "call \<Rightarrow> bool" where
  "is_createBucket (CreateBucket name cfg) = True"
| "is_createBucket c = False"

definition fair :: "nat list \<Rightarrow> nat \<Rightarrow> bool" where
  "fair sched n = list_all (\<lambda>i. 2 \<le> count_list sched i) [0..<n]"

text \<open>The answers a task still waits for.\<close>

fun pending :: "bucket_task \<Rightarrow> nat" where
  "pending AwaitGet = 2"
| "pending AwaitCreate = 1"
| "pending (Done r) = 0"

text \<open>The store answers the six calls of an initialization from its state.\<close>

definition store_answers :: "world \<Rightarrow> bool" where
  "store_answers w =
     list_all (\<lambda>b. fault w (GetBucket b) = None \<and> fault w (CreateBucket b bucket_cfg) = None)
       [APPLICATIONS, SERVICES, INSTANCES]"

section \<open>Example records\<close>

definition ex_app :: obj where
  "ex_app = [(''uuid'', JStr ''a-1''), (''name'', JStr ''app1''), (''owner_uuid'', JStr ''u-1''),
             (''params'', JObj [(''a'', JNum 1), (''b'', JNum 1)])]"

definition ex_svc :: obj where
  "ex_svc = [(''uuid'', JStr ''s-1''), (''name'', JStr ''svc1''), (''application_uuid'', JStr ''a-1''),
             (''image_uuid'', JStr ''img-1''),
             (''params'', JObj [(''b'', JNum 2), (''c'', JNum 2)])]"

definition ex_inst :: obj where
  "ex_inst = [(''uuid'', JStr ''i-1''), (''name'', JStr ''inst1''), (''service_uuid'', JStr ''s-1''),
              (''params'', JObj [(''c'', JNum 3), (''d'', JNum 3), (''uuid'', JStr ''mine'')])]"

definition no_fault :: "call \<Rightarrow> jserror option" where
  "no_fault c = None"

definition ex_world :: world where
  "ex_world =
     \<lparr>buckets = [(''sapi_applications'', [(''a-1'', ex_app)]),
                 (''sapi_services'', [(''s-1'', ex_svc)]),
                 (''sapi_instances'', [])],
      users = [''u-1''], images = [''img-1''], fault = no_fault, calls = []\<rparr>"

definition ex_svc_orphan :: obj where
  "ex_svc_orphan = [(''name'', JStr ''svc2''), (''application_uuid'', JStr ''a-404''),
                    (''image_uuid'', JStr ''img-1'')]"

definition ex_svc_noimg :: obj where
  "ex_svc_noimg = [(''name'', JStr ''svc3''), (''application_uuid'', JStr ''a-1''),
                   (''image_uuid'', JStr ''img-404'')]"

definition ex_svc_new :: obj where
  "ex_svc_new = [(''name'', JStr ''svc4''), (''application_uuid'', JStr ''a-1''),
                 (''image_uuid'', JStr ''img-1'')]"

definition ex_app_stranger :: obj where
  "ex_app_stranger = [(''name'', JStr ''app2''), (''owner_uuid'', JStr ''u-404'')]"

definition ex_inst_orphan :: obj where
  "ex_inst_orphan = [(''name'', JStr ''inst2''), (''service_uuid'', JStr ''s-404'')]"

definition outage :: jserror where
  "outage = JSError ''ConnectionError'' ''connect ECONNREFUSED''"

definition all_down :: "call \<Rightarrow> jserror option" where
  "all_down c = Some outage"

definition ex_outage :: world where
  "ex_outage = ex_world\<lparr>fault := all_down\<rparr>"



definition ex_inst_greedy :: obj where
  "ex_inst_greedy =
     [(''uuid'', JStr ''i-2''), (''name'', JStr ''inst2''), (''service_uuid'', JStr ''s-1''),
      (''params'', JObj [(''ram'', JNum 4096), (''brand'', JStr ''kvm'')])]"

definition ex_fresh :: world where
  "ex_fresh = \<lparr>buckets = [], users = [''u-1''], images = [''img-1''], fault = no_fault, calls = []\<rparr>"

definition ex_svc_wild :: obj where
  "ex_svc_wild = [(''name'', JStr ''svc5''), (''application_uuid'', JStr ''*''),
                  (''image_uuid'', JStr ''img-1'')]"

definition ex_inst_wild :: obj where
  "ex_inst_wild = [(''name'', JStr ''inst5''), (''service_uuid'', JStr ''*'')]"

section \<open>Basic facts about the clients\<close>

lemma issue_fields [simp]:
  "buckets (issue w c) = buckets w" "users (issue w c) = users w"
  "images (issue w c) = images w" "fault (issue w c) = fault w"
  "calls (issue w c) = calls w @ [c]"
  by (simp_all add: issue_def)

lemma getObject_world: "fst (getObject w b u) = issue w (FindObjects b (uuid_filter u))"
  by (simp add: getObject_def findObjects_def moray_findObjects_def
      split: option.splits sum.splits prod.splits)

lemma getObject_issue: "snd (getObject (issue w c) b u) = snd (getObject w b u)"
  by (simp add: getObject_def findObjects_def moray_findObjects_def
      split: option.splits sum.splits prod.splits)

lemma getUser_world: "fst (ufds_getUser w u) = issue w (GetUser u)"
  by (simp add: ufds_getUser_def split: option.splits)

lemma getImage_world: "fst (imgapi_getImage w u) = issue w (GetImage u)"
  by (simp add: imgapi_getImage_def split: option.splits)

lemma getImage_issue: "snd (imgapi_getImage (issue w c) u) = snd (imgapi_getImage w u)"
  by (simp add: imgapi_getImage_def split: option.splits)

lemma glob_plain: "CHR ''*'' \<notin> set p \<Longrightarrow> glob p s = (p = s)"
  by (induction p s rule: glob.induct) auto

lemma filter_pattern_plain: "plain u \<Longrightarrow> filter_pattern (uuid_filter u) = Some u"
  by (simp add: filter_pattern_def uuid_filter_def plain_def butlast_append)

lemma uuid_matches_plain:
  "plain u \<Longrightarrow> uuid_matches u v = (map_of v ''uuid'' = Some (JStr u))"
  by (auto simp: uuid_matches_def plain_def glob_plain split: option.splits jsval.splits)


lemma getObject_plain:
  "plain u \<Longrightarrow> fault w (FindObjects b (uuid_filter u)) = None \<Longrightarrow>
   map_of (buckets w) b = Some rows \<Longrightarrow>
   snd (getObject w b u) =
     (None, Some (case map snd (filter (\<lambda>row. map_of (snd row) ''uuid'' = Some (JStr u)) rows) of
                    [] \<Rightarrow> JNull | x # rest \<Rightarrow> JObj x))"
  by (simp add: getObject_def findObjects_def moray_findObjects_def filter_pattern_plain
      uuid_matches_plain)

lemma getObject_absent:
  assumes "plain u" and "fault w (FindObjects b (uuid_filter u)) = None"
    and "map_of (buckets w) b = Some rows"
    and "filter (\<lambda>row. map_of (snd row) ''uuid'' = Some (JStr u)) rows = []"
  shows "snd (getObject w b u) = (None, Some JNull)"
  using getObject_plain[OF assms(1-3)] assms(4) by simp

lemma getApplication_world:
  "getApplication w u = (w', r) \<Longrightarrow> w' = issue w (FindObjects APPLICATIONS (uuid_filter u))"
  using getObject_world[of w APPLICATIONS u] by (simp add: getApplication_def)

lemma getService_world:
  "getService w u = (w', r) \<Longrightarrow> w' = issue w (FindObjects SERVICES (uuid_filter u))"
  using getObject_world[of w SERVICES u] by (simp add: getService_def)

lemma getObject_calls:
  "getObject w b u = (w', r) \<Longrightarrow> calls w' = calls w @ [FindObjects b (uuid_filter u)]"
  using getObject_world[of w b u] by simp

section \<open>Parameter assembly\<close>

lemma fold_copy_restrict:
  "set ks \<subseteq> fst ` set kvs \<Longrightarrow>
   map_of (fold (\<lambda>key acc. case map_of kvs key of None \<Rightarrow> acc | Some v \<Rightarrow> AList.update key v acc) ks params)
     = map_of params ++ (map_of kvs |` set ks)"
proof (induction ks arbitrary: params)
  case Nil
  then show ?case by simp
next
  case (Cons k ks)
  from Cons.prems have "k \<in> fst ` set kvs" by simp
  then obtain v where v: "map_of kvs k = Some v"
    by (metis domD dom_map_of_conv_image_fst)
  from Cons.prems have sub: "set ks \<subseteq> fst ` set kvs" by simp
  have "map_of (AList.update k v params) ++ (map_of kvs |` set ks)
          = map_of params ++ (map_of kvs |` set (k # ks))"
    by (rule ext) (simp add: update_conv' map_add_def restrict_map_def v split: option.splits)
  with Cons.IH[OF sub, of "AList.update k v params"] v show ?case by simp
qed

lemma copy_params_map:
  assumes "params_ok src"
  shows "\<exists>params'. copy_params src params = Inr params' \<and>
           map_of params' = map_of params ++ as_map src"
proof (cases "\<exists>kvs. src = Some (JObj kvs)")
  case True
  then obtain kvs where src: "src = Some (JObj kvs)" by blast
  have "map_of kvs |` set (map fst kvs) = map_of kvs"
    by (rule ext) (auto simp: restrict_map_def map_of_eq_None_iff[symmetric])
  with fold_copy_restrict[of "map fst kvs" kvs params] src show ?thesis
    by (simp add: copy_params_def)
next
  case False
  with assms have falsy: "\<not> truthy src"
    by (cases src rule: params_ok.cases) auto
  from False have "as_map src = Map.empty"
    by (cases src rule: as_map.cases) auto
  with falsy show ?thesis by (simp add: copy_params_def)
qed

text \<open>
  C1: for records whose \<^verbatim>\<open>params\<close> are maps or absent and whose \<^verbatim>\<open>owner_uuid\<close>,
  \<^verbatim>\<open>image_uuid\<close> and \<^verbatim>\<open>uuid\<close> are strings, \<^verbatim>\<open>assembleParams\<close> returns the
  application's params overwritten by the service's, overwritten by the instance's,
  and then \<^verbatim>\<open>owner_uuid\<close>, \<^verbatim>\<open>image_uuid\<close> and \<^verbatim>\<open>uuid\<close> set from the application,
  the service and the instance, whatever the params said of them. Absent params add
  nothing.
\<close>

theorem assembleParams_precedence:
  assumes "params_ok (map_of app ''params'')"
    and "params_ok (map_of svc ''params'')"
    and "params_ok (map_of inst ''params'')"
    and "map_of app ''owner_uuid'' = Some (JStr owner_uuid)"
    and "map_of svc ''image_uuid'' = Some (JStr image_uuid)"
    and "map_of inst ''uuid'' = Some (JStr uuid)"
  shows "\<exists>params.
           assembleParams (Some (JObj app)) (Some (JObj svc)) (Some (JObj inst)) = Inr params \<and>
           map_of params =
             (as_map (map_of app ''params'') ++ as_map (map_of svc ''params'')
                ++ as_map (map_of inst ''params''))
             (''owner_uuid'' \<mapsto> JStr owner_uuid, ''image_uuid'' \<mapsto> JStr image_uuid,
              ''uuid'' \<mapsto> JStr uuid)"
proof -
  obtain p1 where p1: "copy_params (map_of app ''params'') [] = Inr p1"
      "map_of p1 = as_map (map_of app ''params'')"
    using copy_params_map[OF assms(1), of "[]"] by auto
  obtain p2 where p2: "copy_params (map_of svc ''params'') p1 = Inr p2"
      "map_of p2 = map_of p1 ++ as_map (map_of svc ''params'')"
    using copy_params_map[OF assms(2), of p1] by auto
  obtain p3 where p3: "copy_params (map_of inst ''params'') p2 = Inr p3"
      "map_of p3 = map_of p2 ++ as_map (map_of inst ''params'')"
    using copy_params_map[OF assms(3), of p2] by auto
  show ?thesis
    by (simp add: assembleParams_def and_then_def asserted_def assert_string_def
          p1 p2 p3 assms(4-6) update_conv')
qed

text \<open>The example of the specification, with a \<^verbatim>\<open>uuid\<close> among the instance's params.\<close>

theorem assembleParams_precedence_witness:
  "params_ok (map_of ex_app ''params'') \<and> params_ok (map_of ex_svc ''params'') \<and>
   params_ok (map_of ex_inst ''params'') \<and>
   (\<exists>params.
      assembleParams (Some (JObj ex_app)) (Some (JObj ex_svc)) (Some (JObj ex_inst)) = Inr params \<and>
      map_of params =
        [''a'' \<mapsto> JNum 1, ''b'' \<mapsto> JNum 2, ''c'' \<mapsto> JNum 3, ''d'' \<mapsto> JNum 3,
         ''owner_uuid'' \<mapsto> JStr ''u-1'', ''image_uuid'' \<mapsto> JStr ''img-1'',
         ''uuid'' \<mapsto> JStr ''i-1''])"
proof -
  have eq: "(as_map (map_of ex_app ''params'') ++ as_map (map_of ex_svc ''params'')
                ++ as_map (map_of ex_inst ''params''))
             (''owner_uuid'' \<mapsto> JStr ''u-1'', ''image_uuid'' \<mapsto> JStr ''img-1'',
              ''uuid'' \<mapsto> JStr ''i-1'')
          = [''a'' \<mapsto> JNum 1, ''b'' \<mapsto> JNum 2, ''c'' \<mapsto> JNum 3, ''d'' \<mapsto> JNum 3,
         ''owner_uuid'' \<mapsto> JStr ''u-1'', ''image_uuid'' \<mapsto> JStr ''img-1'',
         ''uuid'' \<mapsto> JStr ''i-1'']"
    by (rule ext) (simp add: ex_app_def ex_svc_def ex_inst_def map_add_def)
  show ?thesis
    using assembleParams_precedence[of ex_app ex_svc ex_inst "''u-1''" "''img-1''" "''i-1''"]
    unfolding eq by (simp add: ex_app_def ex_svc_def ex_inst_def)
qed

section \<open>Referential checks of the create operations\<close>

lemma check_owner_eq:
  "check_owner u w = (issue w (GetUser u), if owner_valid w u then Next else Fail (invalid_user u))"
  using getUser_world[of w u]
  by (auto simp: check_owner_def owner_valid_def validOwnerUUID_def split: prod.splits option.splits)

lemma check_application_eq:
  "check_application u w =
     (issue w (FindObjects APPLICATIONS (uuid_filter u)),
      if application_exists w u then Next else Fail (doesnt_exist ''application'' u))"
  using getObject_world[of w APPLICATIONS u]
  by (auto simp: check_application_def application_exists_def getApplication_def split: prod.splits)

lemma check_service_eq:
  "check_service u w =
     (issue w (FindObjects SERVICES (uuid_filter u)),
      if service_exists w u then Next else Fail (doesnt_exist ''service'' u))"
  using getObject_world[of w SERVICES u]
  by (auto simp: check_service_def service_exists_def getService_def split: prod.splits)

lemma check_image_eq:
  "check_image u w =
     (issue w (GetImage u), if image_exists w u then Next else Fail (doesnt_exist ''image'' u))"
  using getImage_world[of w u]
  by (auto simp: check_image_def image_exists_def split: prod.splits)

lemma image_exists_issue [simp]: "image_exists (issue w c) u = image_exists w u"
  by (simp add: image_exists_def imgapi_getImage_def split: option.splits)

text \<open>
  A plain identifier that no record of the bucket carries fails the check: the lookup
  answers \<^verbatim>\<open>null\<close>.
\<close>

lemma absent_fails_check:
  assumes "plain u"
    and "filter (\<lambda>row. map_of (snd row) ''uuid'' = Some (JStr u)) rows = []"
  shows "fault w (FindObjects APPLICATIONS (uuid_filter u)) = None \<Longrightarrow>
         map_of (buckets w) APPLICATIONS = Some rows \<Longrightarrow> \<not> application_exists w u"
    and "fault w (FindObjects SERVICES (uuid_filter u)) = None \<Longrightarrow>
         map_of (buckets w) SERVICES = Some rows \<Longrightarrow> \<not> service_exists w u"
proof -
  show "\<not> application_exists w u"
    if "fault w (FindObjects APPLICATIONS (uuid_filter u)) = None"
      "map_of (buckets w) APPLICATIONS = Some rows"
    using getObject_absent[OF assms(1) that assms(2)]
    by (cases "getObject w APPLICATIONS u") (simp add: application_exists_def getApplication_def)
  show "\<not> service_exists w u"
    if "fault w (FindObjects SERVICES (uuid_filter u)) = None"
      "map_of (buckets w) SERVICES = Some rows"
    using getObject_absent[OF assms(1) that assms(2)]
    by (cases "getObject w SERVICES u") (simp add: service_exists_def getService_def)
qed

lemma put_record_string:
  "map_of rec ''uuid'' = Some (JStr key) \<Longrightarrow>
   put_record bucket rec w =
     (fst (moray_putObject w bucket key rec),
      case snd (moray_putObject w bucket key rec) of Some err \<Rightarrow> Fail err | None \<Rightarrow> Next)"
  by (simp add: put_record_def split: prod.splits option.splits)

lemma putObject_calls: "calls (fst (moray_putObject w b k v)) = calls w @ [PutObject b k v]"
  by (simp add: moray_putObject_def split: option.splits)

lemma createService_application_missing:
  assumes "map_of svc ''name'' = Some (JStr name)"
    and "map_of svc ''application_uuid'' = Some (JStr app_uuid)"
    and "map_of svc ''image_uuid'' = Some (JStr image_uuid)"
    and "\<not> application_exists w app_uuid"
  shows "createService w v4 svc =
           (issue w (FindObjects APPLICATIONS (uuid_filter app_uuid)),
            assign_uuid v4 svc,
            called (Some (doesnt_exist ''application'' app_uuid))
              (Some (JObj (assign_uuid v4 svc))))"
  using assms
  by (simp add: createService_def assert_string_def check_application_eq finished_def called_def)

lemma createService_image_missing:
  assumes "map_of svc ''name'' = Some (JStr name)"
    and "map_of svc ''application_uuid'' = Some (JStr app_uuid)"
    and "map_of svc ''image_uuid'' = Some (JStr image_uuid)"
    and "application_exists w app_uuid"
    and "\<not> image_exists w image_uuid"
  shows "createService w v4 svc =
           (issue (issue w (FindObjects APPLICATIONS (uuid_filter app_uuid))) (GetImage image_uuid),
            assign_uuid v4 svc,
            called (Some (doesnt_exist ''image'' image_uuid))
              (Some (JObj (assign_uuid v4 svc))))"
  using assms
  by (simp add: createService_def assert_string_def check_application_eq check_image_eq
      finished_def called_def)

lemma createService_checks_passed:
  assumes "map_of svc ''name'' = Some (JStr name)"
    and "map_of svc ''application_uuid'' = Some (JStr app_uuid)"
    and "map_of svc ''image_uuid'' = Some (JStr image_uuid)"
    and "application_exists w app_uuid"
    and "image_exists w image_uuid"
    and "map_of (assign_uuid v4 svc) ''uuid'' = Some (JStr key)"
  shows "new_calls w (fst (createService w v4 svc)) =
           [FindObjects APPLICATIONS (uuid_filter app_uuid), GetImage image_uuid,
            PutObject SERVICES key (assign_uuid v4 svc)]"
  using assms
  by (simp add: createService_def assert_string_def check_application_eq check_image_eq
      put_record_string putObject_calls new_calls_def split: prod.splits option.splits)

lemma createApplication_owner_invalid:
  assumes "map_of app ''name'' = Some (JStr name)"
    and "map_of app ''owner_uuid'' = Some (JStr owner_uuid)"
    and "\<not> owner_valid w owner_uuid"
  shows "createApplication w v4 app =
           (issue w (GetUser owner_uuid), assign_uuid v4 app,
            called (Some (invalid_user owner_uuid)) (Some (JObj (assign_uuid v4 app))))"
  using assms
  by (simp add: createApplication_def assert_string_def check_owner_eq finished_def called_def)

lemma createInstance_service_missing:
  assumes "map_of inst ''name'' = Some (JStr name)"
    and "map_of inst ''service_uuid'' = Some (JStr svc_uuid)"
    and "\<not> service_exists w svc_uuid"
  shows "createInstance w v4 inst =
           (issue w (FindObjects SERVICES (uuid_filter svc_uuid)), assign_uuid v4 inst,
            called (Some (doesnt_exist ''service'' svc_uuid)) (Some (JObj (assign_uuid v4 inst))))"
  using assms
  by (simp add: createInstance_def assert_string_def check_service_eq finished_def called_def)

lemma ex_checks:
  "\<not> application_exists ex_world ''a-404''"
  "application_exists ex_world ''a-1''"
  "\<not> image_exists ex_world ''img-404''"
  "image_exists ex_world ''img-1''"
  "\<not> owner_valid ex_world ''u-404''"
  "\<not> service_exists ex_world ''s-404''"
  by code_simp+

text \<open>
  What holds of the checks as the code tests them: a create whose check fails calls back
  with the check's error and writes nothing. For a service: when the application is not found, the only call made
  is the lookup of the application (the image is not looked up); when the application is
  found and the image is not, the calls are the two lookups; in both cases the buckets
  are as before. When both checks pass, the one \<^verbatim>\<open>putObject\<close> is the last call, after
  the two lookups. Likewise for an application whose owner is not valid and for an
  instance whose service is not found.
\<close>

theorem failed_check_writes_nothing:
  assumes "map_of svc ''name'' = Some (JStr svc_name)"
    and "map_of svc ''application_uuid'' = Some (JStr app_uuid)"
    and "map_of svc ''image_uuid'' = Some (JStr image_uuid)"
    and "map_of app ''name'' = Some (JStr app_name)"
    and "map_of app ''owner_uuid'' = Some (JStr owner_uuid)"
    and "map_of inst ''name'' = Some (JStr inst_name)"
    and "map_of inst ''service_uuid'' = Some (JStr svc_uuid)"
  shows
    "(\<not> application_exists w app_uuid \<longrightarrow>
        (case createService w v4 svc of
           (w', rec, out) \<Rightarrow>
             buckets w' = buckets w \<and>
             new_calls w w' = [FindObjects APPLICATIONS (uuid_filter app_uuid)] \<and>
             out = called (Some (doesnt_exist ''application'' app_uuid)) (Some (JObj rec)))) \<and>
     (application_exists w app_uuid \<and> \<not> image_exists w image_uuid \<longrightarrow>
        (case createService w v4 svc of
           (w', rec, out) \<Rightarrow>
             buckets w' = buckets w \<and>
             new_calls w w' =
               [FindObjects APPLICATIONS (uuid_filter app_uuid), GetImage image_uuid] \<and>
             out = called (Some (doesnt_exist ''image'' image_uuid)) (Some (JObj rec)))) \<and>
     (application_exists w app_uuid \<and> image_exists w image_uuid \<and>
      map_of (assign_uuid v4 svc) ''uuid'' = Some (JStr key) \<longrightarrow>
        new_calls w (fst (createService w v4 svc)) =
          [FindObjects APPLICATIONS (uuid_filter app_uuid), GetImage image_uuid,
           PutObject SERVICES key (assign_uuid v4 svc)]) \<and>
     (\<not> owner_valid w owner_uuid \<longrightarrow>
        (case createApplication w v4 app of
           (w', rec, out) \<Rightarrow>
             buckets w' = buckets w \<and>
             new_calls w w' = [GetUser owner_uuid] \<and>
             out = called (Some (invalid_user owner_uuid)) (Some (JObj rec)))) \<and>
     (\<not> service_exists w svc_uuid \<longrightarrow>
        (case createInstance w v4 inst of
           (w', rec, out) \<Rightarrow>
             buckets w' = buckets w \<and>
             new_calls w w' = [FindObjects SERVICES (uuid_filter svc_uuid)] \<and>
             out = called (Some (doesnt_exist ''service'' svc_uuid)) (Some (JObj rec))))"
proof (intro conjI impI)
  assume "\<not> application_exists w app_uuid"
  from createService_application_missing[OF assms(1-3) this, of v4]
  show "case createService w v4 svc of
          (w', rec, out) \<Rightarrow>
            buckets w' = buckets w \<and>
            new_calls w w' = [FindObjects APPLICATIONS (uuid_filter app_uuid)] \<and>
            out = called (Some (doesnt_exist ''application'' app_uuid)) (Some (JObj rec))"
    by (simp add: new_calls_def)
next
  assume "application_exists w app_uuid \<and> \<not> image_exists w image_uuid"
  then have "application_exists w app_uuid" "\<not> image_exists w image_uuid" by simp_all
  from createService_image_missing[OF assms(1-3) this, of v4]
  show "case createService w v4 svc of
          (w', rec, out) \<Rightarrow>
            buckets w' = buckets w \<and>
            new_calls w w' =
              [FindObjects APPLICATIONS (uuid_filter app_uuid), GetImage image_uuid] \<and>
            out = called (Some (doesnt_exist ''image'' image_uuid)) (Some (JObj rec))"
    by (simp add: new_calls_def)
next
  assume "application_exists w app_uuid \<and> image_exists w image_uuid \<and>
          map_of (assign_uuid v4 svc) ''uuid'' = Some (JStr key)"
  then have "application_exists w app_uuid" "image_exists w image_uuid"
    "map_of (assign_uuid v4 svc) ''uuid'' = Some (JStr key)" by simp_all
  from createService_checks_passed[OF assms(1-3) this]
  show "new_calls w (fst (createService w v4 svc)) =
          [FindObjects APPLICATIONS (uuid_filter app_uuid), GetImage image_uuid,
           PutObject SERVICES key (assign_uuid v4 svc)]" .
next
  assume "\<not> owner_valid w owner_uuid"
  from createApplication_owner_invalid[OF assms(4,5) this, of v4]
  show "case createApplication w v4 app of
          (w', rec, out) \<Rightarrow>
            buckets w' = buckets w \<and>
            new_calls w w' = [GetUser owner_uuid] \<and>
            out = called (Some (invalid_user owner_uuid)) (Some (JObj rec))"
    by (simp add: new_calls_def)
next
  assume "\<not> service_exists w svc_uuid"
  from createInstance_service_missing[OF assms(6,7) this, of v4]
  show "case createInstance w v4 inst of
          (w', rec, out) \<Rightarrow>
            buckets w' = buckets w \<and>
            new_calls w w' = [FindObjects SERVICES (uuid_filter svc_uuid)] \<and>
            out = called (Some (doesnt_exist ''service'' svc_uuid)) (Some (JObj rec))"
    by (simp add: new_calls_def)
qed

theorem failed_check_writes_nothing_witness:
  "\<not> application_exists ex_world ''a-404'' \<and>
   (case createService ex_world ''s-2'' ex_svc_orphan of
      (w', rec, out) \<Rightarrow>
        buckets w' = buckets ex_world \<and>
        new_calls ex_world w' = [FindObjects APPLICATIONS (uuid_filter ''a-404'')] \<and>
        out = called (Some (doesnt_exist ''application'' ''a-404'')) (Some (JObj rec))) \<and>
   application_exists ex_world ''a-1'' \<and> \<not> image_exists ex_world ''img-404'' \<and>
   (case createService ex_world ''s-2'' ex_svc_noimg of
      (w', rec, out) \<Rightarrow>
        buckets w' = buckets ex_world \<and>
        new_calls ex_world w' =
          [FindObjects APPLICATIONS (uuid_filter ''a-1''), GetImage ''img-404''] \<and>
        out = called (Some (doesnt_exist ''image'' ''img-404'')) (Some (JObj rec))) \<and>
   image_exists ex_world ''img-1'' \<and>
   new_calls ex_world (fst (createService ex_world ''s-2'' ex_svc_new)) =
     [FindObjects APPLICATIONS (uuid_filter ''a-1''), GetImage ''img-1'',
      PutObject SERVICES ''s-2'' (assign_uuid ''s-2'' ex_svc_new)] \<and>
   \<not> owner_valid ex_world ''u-404'' \<and>
   (case createApplication ex_world ''a-2'' ex_app_stranger of
      (w', rec, out) \<Rightarrow>
        buckets w' = buckets ex_world \<and>
        new_calls ex_world w' = [GetUser ''u-404''] \<and>
        out = called (Some (invalid_user ''u-404'')) (Some (JObj rec))) \<and>
   \<not> service_exists ex_world ''s-404'' \<and>
   (case createInstance ex_world ''i-2'' ex_inst_orphan of
      (w', rec, out) \<Rightarrow>
        buckets w' = buckets ex_world \<and>
        new_calls ex_world w' = [FindObjects SERVICES (uuid_filter ''s-404'')] \<and>
        out = called (Some (doesnt_exist ''service'' ''s-404'')) (Some (JObj rec)))"
proof -
  have app: "map_of ex_app_stranger ''name'' = Some (JStr ''app2'')"
      "map_of ex_app_stranger ''owner_uuid'' = Some (JStr ''u-404'')"
    by (simp_all add: ex_app_stranger_def)
  have inst: "map_of ex_inst_orphan ''name'' = Some (JStr ''inst2'')"
      "map_of ex_inst_orphan ''service_uuid'' = Some (JStr ''s-404'')"
    by (simp_all add: ex_inst_orphan_def)
  have orphan: "map_of ex_svc_orphan ''name'' = Some (JStr ''svc2'')"
      "map_of ex_svc_orphan ''application_uuid'' = Some (JStr ''a-404'')"
      "map_of ex_svc_orphan ''image_uuid'' = Some (JStr ''img-1'')"
    by (simp_all add: ex_svc_orphan_def)
  have noimg: "map_of ex_svc_noimg ''name'' = Some (JStr ''svc3'')"
      "map_of ex_svc_noimg ''application_uuid'' = Some (JStr ''a-1'')"
      "map_of ex_svc_noimg ''image_uuid'' = Some (JStr ''img-404'')"
    by (simp_all add: ex_svc_noimg_def)
  have new: "map_of ex_svc_new ''name'' = Some (JStr ''svc4'')"
      "map_of ex_svc_new ''application_uuid'' = Some (JStr ''a-1'')"
      "map_of ex_svc_new ''image_uuid'' = Some (JStr ''img-1'')"
      "map_of (assign_uuid ''s-2'' ex_svc_new) ''uuid'' = Some (JStr ''s-2'')"
    by (simp_all add: ex_svc_new_def assign_uuid_def)
  show ?thesis
    using failed_check_writes_nothing[OF orphan app inst, where w = ex_world and ?v4.0 = "''s-2''"]
      failed_check_writes_nothing[OF noimg app inst, where w = ex_world and ?v4.0 = "''s-2''"]
      failed_check_writes_nothing[OF new(1-3) app inst, where w = ex_world and ?v4.0 = "''s-2''"
        and key = "''s-2''"]
      failed_check_writes_nothing[OF orphan app inst, where w = ex_world and ?v4.0 = "''a-2''"]
      failed_check_writes_nothing[OF orphan app inst, where w = ex_world and ?v4.0 = "''i-2''"]
      ex_checks new(4)
    by simp
qed

text \<open>
  In the terms of the store: a service that names, by a plain identifier, an application
  that no record of the bucket carries is refused and not written.
\<close>

lemma createService_absent_application:
  assumes "map_of svc ''name'' = Some (JStr name)"
    and "map_of svc ''application_uuid'' = Some (JStr app_uuid)"
    and "map_of svc ''image_uuid'' = Some (JStr image_uuid)"
    and "plain app_uuid"
    and "fault w (FindObjects APPLICATIONS (uuid_filter app_uuid)) = None"
    and "map_of (buckets w) APPLICATIONS = Some rows"
    and "filter (\<lambda>row. map_of (snd row) ''uuid'' = Some (JStr app_uuid)) rows = []"
  shows "createService w v4 svc =
           (issue w (FindObjects APPLICATIONS (uuid_filter app_uuid)),
            assign_uuid v4 svc,
            called (Some (doesnt_exist ''application'' app_uuid))
              (Some (JObj (assign_uuid v4 svc))))"
  using createService_application_missing[OF assms(1-3) absent_fails_check(1)[OF assms(4,7,5,6)]] .

lemma wildcard_check:
  "application_exists w ''*'' =
     (case snd (listApplications w) of Inl err \<Rightarrow> False | Inr objs \<Rightarrow> objs \<noteq> [])"
  "service_exists w ''*'' =
     (case snd (listServices w) of Inl err \<Rightarrow> False | Inr objs \<Rightarrow> objs \<noteq> [])"
  by (auto simp: application_exists_def getApplication_def listApplications_def
      service_exists_def getService_def listServices_def
      getObject_def listObjects_def uuid_filter_def split: prod.splits sum.splits list.splits)

text \<open>
  C2 fails on the identifier \<^verbatim>\<open>*\<close>, by the unescaped filter of \<^verbatim>\<open>getObject\<close>: the
  check of the application passes whenever the bucket of applications is not empty. In
  the example the only application is \<^verbatim>\<open>a-1\<close>; the service names the application
  \<^verbatim>\<open>*\<close>, which does not exist, and \<^verbatim>\<open>createService\<close> calls back without error and
  writes the service. Likewise \<^verbatim>\<open>createInstance\<close> for the service \<^verbatim>\<open>*\<close>.
\<close>

theorem create_wildcard_reference_written:
  "application_exists w ''*'' =
     (case snd (listApplications w) of Inl err \<Rightarrow> False | Inr objs \<Rightarrow> objs \<noteq> []) \<and>
   snd (listApplications ex_world) = Inr [ex_app] \<and>
   map_of ex_app ''uuid'' = Some (JStr ''a-1'') \<and>
   map_of ex_svc_wild ''application_uuid'' = Some (JStr ''*'') \<and>
   snd (snd (createService ex_world ''s-2'' ex_svc_wild)) =
     called None (Some (JObj (assign_uuid ''s-2'' ex_svc_wild))) \<and>
   new_calls ex_world (fst (createService ex_world ''s-2'' ex_svc_wild)) =
     [FindObjects APPLICATIONS ''(uuid=*)'', GetImage ''img-1'',
      PutObject SERVICES ''s-2'' (assign_uuid ''s-2'' ex_svc_wild)] \<and>
   map_of (buckets (fst (createService ex_world ''s-2'' ex_svc_wild))) SERVICES =
     Some [(''s-1'', ex_svc), (''s-2'', assign_uuid ''s-2'' ex_svc_wild)] \<and>
   snd (listServices ex_world) = Inr [ex_svc] \<and>
   map_of ex_svc ''uuid'' = Some (JStr ''s-1'') \<and>
   map_of ex_inst_wild ''service_uuid'' = Some (JStr ''*'') \<and>
   snd (snd (createInstance ex_world ''i-2'' ex_inst_wild)) =
     called None (Some (JObj (assign_uuid ''i-2'' ex_inst_wild))) \<and>
   map_of (buckets (fst (createInstance ex_world ''i-2'' ex_inst_wild))) INSTANCES =
     Some [(''i-2'', assign_uuid ''i-2'' ex_inst_wild)]"
proof -
  have "snd (listApplications ex_world) = Inr [ex_app]"
    "map_of ex_app ''uuid'' = Some (JStr ''a-1'')"
    "map_of ex_svc_wild ''application_uuid'' = Some (JStr ''*'')"
    "snd (snd (createService ex_world ''s-2'' ex_svc_wild)) =
       called None (Some (JObj (assign_uuid ''s-2'' ex_svc_wild)))"
    "new_calls ex_world (fst (createService ex_world ''s-2'' ex_svc_wild)) =
       [FindObjects APPLICATIONS ''(uuid=*)'', GetImage ''img-1'',
        PutObject SERVICES ''s-2'' (assign_uuid ''s-2'' ex_svc_wild)]"
    "map_of (buckets (fst (createService ex_world ''s-2'' ex_svc_wild))) SERVICES =
       Some [(''s-1'', ex_svc), (''s-2'', assign_uuid ''s-2'' ex_svc_wild)]"
    "snd (listServices ex_world) = Inr [ex_svc]"
    "map_of ex_svc ''uuid'' = Some (JStr ''s-1'')"
    "map_of ex_inst_wild ''service_uuid'' = Some (JStr ''*'')"
    "snd (snd (createInstance ex_world ''i-2'' ex_inst_wild)) =
       called None (Some (JObj (assign_uuid ''i-2'' ex_inst_wild)))"
    "map_of (buckets (fst (createInstance ex_world ''i-2'' ex_inst_wild))) INSTANCES =
       Some [(''i-2'', assign_uuid ''i-2'' ex_inst_wild)]"
    by code_simp+
  with wildcard_check(1)[of w] show ?thesis by blast
qed

section \<open>The owner check\<close>

lemma validOwnerUUID_failed:
  "ufds_getUser w u = (w', Some err, user) \<Longrightarrow> validOwnerUUID w u = (w', None, False)"
  by (simp add: validOwnerUUID_def)

lemma owner_valid_failed:
  "ufds_getUser w u = (w', Some err, user) \<Longrightarrow> \<not> owner_valid w u"
  by (simp add: owner_valid_def validOwnerUUID_def)

text \<open>
  C4: whenever the directory's lookup of the owner fails, with whatever error (not found
  or any other), \<^verbatim>\<open>validOwnerUUID\<close> calls back with no error and \<^verbatim>\<open>false\<close>, and
  \<^verbatim>\<open>createApplication\<close> calls back with \<^verbatim>\<open>invalid user: <owner_uuid>\<close>. Two worlds
  whose lookups fail for different reasons give the caller the same record and the same
  outcome.
\<close>

theorem owner_lookup_failure_is_invalid_user:
  assumes "map_of app ''name'' = Some (JStr name)"
    and "map_of app ''owner_uuid'' = Some (JStr owner_uuid)"
    and "ufds_getUser wa owner_uuid = (wa', Some erra, usera)"
    and "ufds_getUser wb owner_uuid = (wb', Some errb, userb)"
  shows "validOwnerUUID wa owner_uuid = (wa', None, False) \<and>
         validOwnerUUID wb owner_uuid = (wb', None, False) \<and>
         snd (createApplication wa v4 app) =
           (assign_uuid v4 app,
            called (Some (invalid_user owner_uuid)) (Some (JObj (assign_uuid v4 app)))) \<and>
         snd (createApplication wb v4 app) = snd (createApplication wa v4 app)"
  using createApplication_owner_invalid[OF assms(1,2) owner_valid_failed[OF assms(3)], of v4]
    createApplication_owner_invalid[OF assms(1,2) owner_valid_failed[OF assms(4)], of v4]
    validOwnerUUID_failed[OF assms(3)] validOwnerUUID_failed[OF assms(4)]
  by simp

theorem owner_lookup_failure_is_invalid_user_witness:
  "ufds_getUser ex_world ''u-404'' =
     (issue ex_world (GetUser ''u-404''), Some (not_found ''u-404''), None) \<and>
   ufds_getUser ex_outage ''u-404'' = (issue ex_outage (GetUser ''u-404''), Some outage, None) \<and>
   not_found ''u-404'' \<noteq> outage \<and>
   validOwnerUUID ex_world ''u-404'' = (issue ex_world (GetUser ''u-404''), None, False) \<and>
   validOwnerUUID ex_outage ''u-404'' = (issue ex_outage (GetUser ''u-404''), None, False) \<and>
   snd (createApplication ex_world ''a-2'' ex_app_stranger) =
     (assign_uuid ''a-2'' ex_app_stranger,
      called (Some (invalid_user ''u-404'')) (Some (JObj (assign_uuid ''a-2'' ex_app_stranger)))) \<and>
   snd (createApplication ex_outage ''a-2'' ex_app_stranger) =
     snd (createApplication ex_world ''a-2'' ex_app_stranger)"
proof -
  have app: "map_of ex_app_stranger ''name'' = Some (JStr ''app2'')"
      "map_of ex_app_stranger ''owner_uuid'' = Some (JStr ''u-404'')"
    by (simp_all add: ex_app_stranger_def)
  have a: "ufds_getUser ex_world ''u-404'' =
     (issue ex_world (GetUser ''u-404''), Some (not_found ''u-404''), None)"
    by (simp add: ufds_getUser_def ex_world_def no_fault_def)
  have b: "ufds_getUser ex_outage ''u-404'' = (issue ex_outage (GetUser ''u-404''), Some outage, None)"
    by (simp add: ufds_getUser_def ex_outage_def all_down_def)
  have c: "not_found ''u-404'' \<noteq> outage"
    by (simp add: not_found_def outage_def)
  show ?thesis
    using owner_lookup_failure_is_invalid_user[OF app a b, of "''a-2''"] a b c by simp
qed

section \<open>A store failure during the application check\<close>

lemma application_exists_failed:
  "getApplication w u = (w', Some err, r) \<Longrightarrow> \<not> application_exists w u"
  by (simp add: application_exists_def)

text \<open>
  C5, as the code has it: when the store fails on the lookup of the application,
  \<^verbatim>\<open>createService\<close> does not pass the store's error on. It calls back with a new
  error, \<^verbatim>\<open>application <uuid> doesn't exist\<close>, whatever the store's error was, and
  writes nothing.
\<close>

theorem createService_lookup_failure_rewritten:
  assumes "map_of svc ''name'' = Some (JStr name)"
    and "map_of svc ''application_uuid'' = Some (JStr app_uuid)"
    and "map_of svc ''image_uuid'' = Some (JStr image_uuid)"
    and "getApplication w app_uuid = (w', Some err, result)"
  shows "createService w v4 svc =
           (w', assign_uuid v4 svc,
            called (Some (doesnt_exist ''application'' app_uuid))
              (Some (JObj (assign_uuid v4 svc)))) \<and>
         buckets w' = buckets w \<and>
         new_calls w w' = [FindObjects APPLICATIONS (uuid_filter app_uuid)]"
  using createService_application_missing[OF assms(1-3) application_exists_failed[OF assms(4)], of v4]
    getApplication_world[OF assms(4)]
  by (simp add: new_calls_def)

lemma ex_outage_lookup:
  "getApplication ex_outage ''a-1'' =
     (issue ex_outage (FindObjects APPLICATIONS (uuid_filter ''a-1'')), Some outage, None)"
  by (simp add: getApplication_def getObject_def findObjects_def moray_findObjects_def
      ex_outage_def all_down_def)

lemma ex_svc_new_fields:
  "map_of ex_svc_new ''name'' = Some (JStr ''svc4'')"
  "map_of ex_svc_new ''application_uuid'' = Some (JStr ''a-1'')"
  "map_of ex_svc_new ''image_uuid'' = Some (JStr ''img-1'')"
  by (simp_all add: ex_svc_new_def)

theorem createService_lookup_failure_rewritten_witness:
  "getApplication ex_outage ''a-1'' =
     (issue ex_outage (FindObjects APPLICATIONS (uuid_filter ''a-1'')), Some outage, None) \<and>
   createService ex_outage ''s-2'' ex_svc_new =
     (issue ex_outage (FindObjects APPLICATIONS (uuid_filter ''a-1'')),
      assign_uuid ''s-2'' ex_svc_new,
      called (Some (doesnt_exist ''application'' ''a-1''))
        (Some (JObj (assign_uuid ''s-2'' ex_svc_new)))) \<and>
   buckets (issue ex_outage (FindObjects APPLICATIONS (uuid_filter ''a-1''))) = buckets ex_outage"
  using createService_lookup_failure_rewritten[OF ex_svc_new_fields ex_outage_lookup, of "''s-2''"]
    ex_outage_lookup
  by simp

text \<open>
  The store's error is not what the caller gets: in the example the store answers the
  lookup with a connection error, and \<^verbatim>\<open>createService\<close> calls back with the error
  \<^verbatim>\<open>application a-1 doesn't exist\<close>.
\<close>

theorem createService_lookup_failure_counterexample:
  "fst (snd (getApplication ex_outage ''a-1'')) = Some outage \<and>
   cb_calls (snd (snd (createService ex_outage ''s-2'' ex_svc_new))) =
     [(Some (doesnt_exist ''application'' ''a-1''),
       Some (JObj (assign_uuid ''s-2'' ex_svc_new)))] \<and>
   doesnt_exist ''application'' ''a-1'' \<noteq> outage"
proof -
  have "\<not> application_exists ex_outage ''a-1''"
    using application_exists_failed[OF ex_outage_lookup] .
  from createService_application_missing[OF ex_svc_new_fields this, of "''s-2''"]
  show ?thesis
    by (simp add: ex_outage_lookup called_def doesnt_exist_def outage_def)
qed

section \<open>The generated identifier\<close>

lemma create_record:
  "fst (snd (createApplication w v4 rec)) =
     (if is_string (map_of rec ''name'') \<and> is_string (map_of rec ''owner_uuid'')
      then assign_uuid v4 rec else rec)"
  "fst (snd (createService w v4 rec)) =
     (if is_string (map_of rec ''name'') \<and> is_string (map_of rec ''application_uuid'')
         \<and> is_string (map_of rec ''image_uuid'')
      then assign_uuid v4 rec else rec)"
  "fst (snd (createInstance w v4 rec)) =
     (if is_string (map_of rec ''name'') \<and> is_string (map_of rec ''service_uuid'')
      then assign_uuid v4 rec else rec)"
  by (simp_all add: createApplication_def createService_def createInstance_def assert_string_def
      split: prod.splits)

lemma createApplication_cb_record:
  "(err, result) \<in> set (cb_calls (snd (snd (createApplication w v4 rec)))) \<Longrightarrow>
   result = Some (JObj (assign_uuid v4 rec))"
  by (auto simp: createApplication_def assert_string_def thrown_def finished_def
      split: prod.splits if_splits)

text \<open>
  C10: when the caller gives no \<^verbatim>\<open>uuid\<close>, the record the caller holds after a create
  is its record with the generated \<^verbatim>\<open>uuid\<close> set, in every world: also where a check
  fails, the store fails or nothing is written. Every call \<^verbatim>\<open>createApplication\<close> makes
  of its callback passes that record, with the error when there is one.
\<close>

theorem create_assigns_uuid_before_checks:
  assumes "map_of app ''name'' = Some (JStr app_name)"
    and "map_of app ''owner_uuid'' = Some (JStr owner_uuid)"
    and "map_of svc ''name'' = Some (JStr svc_name)"
    and "map_of svc ''application_uuid'' = Some (JStr app_uuid)"
    and "map_of svc ''image_uuid'' = Some (JStr image_uuid)"
    and "map_of inst ''name'' = Some (JStr inst_name)"
    and "map_of inst ''service_uuid'' = Some (JStr svc_uuid)"
    and "\<not> truthy (map_of app ''uuid'')"
    and "\<not> truthy (map_of svc ''uuid'')"
    and "\<not> truthy (map_of inst ''uuid'')"
  shows "fst (snd (createApplication w v4 app)) = AList.update ''uuid'' (JStr v4) app \<and>
         fst (snd (createService w v4 svc)) = AList.update ''uuid'' (JStr v4) svc \<and>
         fst (snd (createInstance w v4 inst)) = AList.update ''uuid'' (JStr v4) inst \<and>
         snd ` set (cb_calls (snd (snd (createApplication w v4 app))))
           \<subseteq> {Some (JObj (AList.update ''uuid'' (JStr v4) app))} \<and>
         (\<not> owner_valid w owner_uuid \<longrightarrow>
            createApplication w v4 app =
              (issue w (GetUser owner_uuid), AList.update ''uuid'' (JStr v4) app,
               called (Some (invalid_user owner_uuid))
                 (Some (JObj (AList.update ''uuid'' (JStr v4) app)))))"
proof -
  have a: "assign_uuid v4 app = AList.update ''uuid'' (JStr v4) app"
    and s: "assign_uuid v4 svc = AList.update ''uuid'' (JStr v4) svc"
    and i: "assign_uuid v4 inst = AList.update ''uuid'' (JStr v4) inst"
    using assms(8-10) by (simp_all add: assign_uuid_def)
  have cb: "snd ` set (cb_calls (snd (snd (createApplication w v4 app))))
           \<subseteq> {Some (JObj (AList.update ''uuid'' (JStr v4) app))}"
    using createApplication_cb_record[of _ _ w v4 app] a by auto
  have fail: "\<not> owner_valid w owner_uuid \<longrightarrow>
            createApplication w v4 app =
              (issue w (GetUser owner_uuid), AList.update ''uuid'' (JStr v4) app,
               called (Some (invalid_user owner_uuid))
                 (Some (JObj (AList.update ''uuid'' (JStr v4) app))))"
    using createApplication_owner_invalid[OF assms(1,2), of w v4] a by simp
  show ?thesis
    using cb fail assms(1-7) a s i by (simp add: create_record)
qed

theorem create_assigns_uuid_before_checks_witness:
  "\<not> truthy (map_of ex_app_stranger ''uuid'') \<and> \<not> truthy (map_of ex_svc_orphan ''uuid'') \<and>
   \<not> truthy (map_of ex_inst_orphan ''uuid'') \<and> \<not> owner_valid ex_world ''u-404'' \<and>
   fst (snd (createApplication ex_world ''a-2'' ex_app_stranger)) =
     [(''name'', JStr ''app2''), (''owner_uuid'', JStr ''u-404''), (''uuid'', JStr ''a-2'')] \<and>
   fst (snd (createService ex_world ''a-2'' ex_svc_orphan)) =
     [(''name'', JStr ''svc2''), (''application_uuid'', JStr ''a-404''),
      (''image_uuid'', JStr ''img-1''), (''uuid'', JStr ''a-2'')] \<and>
   fst (snd (createInstance ex_world ''a-2'' ex_inst_orphan)) =
     [(''name'', JStr ''inst2''), (''service_uuid'', JStr ''s-404''), (''uuid'', JStr ''a-2'')] \<and>
   createApplication ex_world ''a-2'' ex_app_stranger =
     (issue ex_world (GetUser ''u-404''),
      [(''name'', JStr ''app2''), (''owner_uuid'', JStr ''u-404''), (''uuid'', JStr ''a-2'')],
      called (Some (invalid_user ''u-404''))
        (Some (JObj [(''name'', JStr ''app2''), (''owner_uuid'', JStr ''u-404''),
                     (''uuid'', JStr ''a-2'')])))"
proof -
  have app: "map_of ex_app_stranger ''name'' = Some (JStr ''app2'')"
      "map_of ex_app_stranger ''owner_uuid'' = Some (JStr ''u-404'')"
    by (simp_all add: ex_app_stranger_def)
  have svc: "map_of ex_svc_orphan ''name'' = Some (JStr ''svc2'')"
      "map_of ex_svc_orphan ''application_uuid'' = Some (JStr ''a-404'')"
      "map_of ex_svc_orphan ''image_uuid'' = Some (JStr ''img-1'')"
    by (simp_all add: ex_svc_orphan_def)
  have inst: "map_of ex_inst_orphan ''name'' = Some (JStr ''inst2'')"
      "map_of ex_inst_orphan ''service_uuid'' = Some (JStr ''s-404'')"
    by (simp_all add: ex_inst_orphan_def)
  have none: "\<not> truthy (map_of ex_app_stranger ''uuid'')"
      "\<not> truthy (map_of ex_svc_orphan ''uuid'')" "\<not> truthy (map_of ex_inst_orphan ''uuid'')"
    by (simp_all add: ex_app_stranger_def ex_svc_orphan_def ex_inst_orphan_def)
  show ?thesis
    using create_assigns_uuid_before_checks[OF app svc inst none, of ex_world "''a-2''"]
      none ex_checks(5)
    by (simp add: ex_app_stranger_def ex_svc_orphan_def ex_inst_orphan_def)
qed

section \<open>Create, then get\<close>


text \<open>Every put of this file keeps a bucket keyed by \<^verbatim>\<open>uuid\<close>.\<close>

lemma keyed_by_uuid_update:
  "keyed_by_uuid rows \<Longrightarrow> map_of v ''uuid'' = Some (JStr u) \<Longrightarrow>
   keyed_by_uuid (AList.update u v rows)"
  by (induction rows rule: keyed_by_uuid.induct) auto





section \<open>Get of an absent identifier\<close>

lemma getObject_error_from_store:
  "fst (snd (getObject w b u)) = Some e \<Longrightarrow> snd (moray_findObjects w b (uuid_filter u)) = Inl e"
  by (auto simp: getObject_def findObjects_def split: prod.splits sum.splits)

text \<open>
  C7 fails on the identifier \<^verbatim>\<open>*\<close>: \<^verbatim>\<open>sprintf('(uuid=%s)', '*')\<close> is the filter
  \<^verbatim>\<open>(uuid=*)\<close> that \<^verbatim>\<open>listObjects\<close> sends to list a whole bucket, so \<^verbatim>\<open>getObject\<close>
  calls back with the first record of the bucket. In the example the bucket of
  applications holds one record, whose \<^verbatim>\<open>uuid\<close> is \<^verbatim>\<open>a-1\<close>; no record has the
  identifier \<^verbatim>\<open>*\<close>, and \<^verbatim>\<open>getApplication\<close> of \<^verbatim>\<open>*\<close> returns that record, not
  \<^verbatim>\<open>null\<close>.
\<close>

theorem get_wildcard_is_first_of_list:
  "snd (getObject w bucket ''*'') =
     (case snd (listObjects w bucket) of
        Inl err \<Rightarrow> (Some err, None)
      | Inr objs \<Rightarrow> (None, Some (case objs of [] \<Rightarrow> JNull | x # rest \<Rightarrow> JObj x))) \<and>
   snd (listApplications ex_world) = Inr [ex_app] \<and>
   map_of ex_app ''uuid'' = Some (JStr ''a-1'') \<and>
   snd (getApplication ex_world ''*'') = (None, Some (JObj ex_app))"
proof -
  have general: "snd (getObject w bucket ''*'') =
     (case snd (listObjects w bucket) of
        Inl err \<Rightarrow> (Some err, None)
      | Inr objs \<Rightarrow> (None, Some (case objs of [] \<Rightarrow> JNull | x # rest \<Rightarrow> JObj x)))"
    for w bucket
    by (simp add: getObject_def listObjects_def uuid_filter_def split: prod.splits sum.splits)
  have listed: "snd (listApplications ex_world) = Inr [ex_app]"
    by (simp add: listApplications_def listObjects_def findObjects_def moray_findObjects_def
        ex_world_def no_fault_def APPLICATIONS_def filter_pattern_def uuid_matches_def ex_app_def)
  have "snd (getApplication ex_world ''*'') = (None, Some (JObj ex_app))"
    using general[of ex_world APPLICATIONS] listed
    by (simp add: getApplication_def listApplications_def)
  with general listed show ?thesis by (simp add: ex_app_def)
qed

section \<open>Deployment of an instance whose service is missing\<close>

lemma deploy_lookup_error:
  assumes "map_of inst ''service_uuid'' = Some (JStr svc_uuid)"
    and "getService w svc_uuid = (w', Some err, None)"
  shows "deployInstance w inst =
           (w', \<lparr>cb_calls = [(Some err, None)],
                 uncaught = Some (cannot_read ''application_uuid'' ''undefined'')\<rparr>)"
  using assms
  by (simp add: deployInstance_def assert_string_def resolve_service_def after_error_def
      finished_def)

text \<open>
  C3 fails on the code: when the service is not found, \<^verbatim>\<open>getService\<close> calls back
  \<^verbatim>\<open>(null, null)\<close>, the first task stores \<^verbatim>\<open>null\<close> in \<^verbatim>\<open>service\<close> and reads
  \<^verbatim>\<open>service.application_uuid\<close>. The TypeError escapes and the callback of
  \<^verbatim>\<open>deployInstance\<close> is never called: there is no error that names the service. The
  lookup of the service is the only call made.
\<close>

theorem deploy_missing_service_throws:
  assumes "map_of inst ''service_uuid'' = Some (JStr svc_uuid)"
    and "getService w svc_uuid = (w', None, Some JNull)"
  shows "deployInstance w inst =
           (w', \<lparr>cb_calls = [], uncaught = Some (cannot_read ''application_uuid'' ''null'')\<rparr>) \<and>
         new_calls w w' = [FindObjects SERVICES (uuid_filter svc_uuid)]"
  using assms getService_world[OF assms(2)]
  by (simp add: deployInstance_def assert_string_def resolve_service_def after_error_def
      finished_def new_calls_def)

theorem deploy_missing_service_throws_witness:
  "map_of ex_inst_orphan ''service_uuid'' = Some (JStr ''s-404'') \<and>
   snd (listServices ex_world) = Inr [ex_svc] \<and> map_of ex_svc ''uuid'' = Some (JStr ''s-1'') \<and>
   getService ex_world ''s-404'' =
     (issue ex_world (FindObjects SERVICES (uuid_filter ''s-404'')), None, Some JNull) \<and>
   deployInstance ex_world ex_inst_orphan =
     (issue ex_world (FindObjects SERVICES (uuid_filter ''s-404'')),
      \<lparr>cb_calls = [], uncaught = Some (cannot_read ''application_uuid'' ''null'')\<rparr>)"
proof -
  have a: "map_of ex_inst_orphan ''service_uuid'' = Some (JStr ''s-404'')"
    by (simp add: ex_inst_orphan_def)
  have b: "getService ex_world ''s-404'' =
     (issue ex_world (FindObjects SERVICES (uuid_filter ''s-404'')), None, Some JNull)"
    by (simp add: getService_def getObject_def findObjects_def moray_findObjects_def
        ex_world_def no_fault_def SERVICES_def filter_pattern_def uuid_filter_def
        uuid_matches_def ex_svc_def)
  have c: "snd (listServices ex_world) = Inr [ex_svc]"
    by (simp add: listServices_def listObjects_def findObjects_def moray_findObjects_def
        ex_world_def no_fault_def SERVICES_def filter_pattern_def uuid_matches_def ex_svc_def)
  show ?thesis
    using deploy_missing_service_throws[OF a b] a b c by (simp add: ex_svc_def)
qed

section \<open>The provisioning request\<close>

lemma zone_fields_map:
  "map_of (zone_fields params) =
     (map_of params)
       (''brand'' \<mapsto> JStr ''joyent-minimal'', ''ram'' \<mapsto> JNum 256,
        ''networks'' \<mapsto> JArr [JStr ''cda22a50-15bd-43cf-b379-be0cbac60cb4''],
        ''server_uuid'' \<mapsto> JStr ''44454c4c-4800-1034-804a-b2c04f354d31'')"
  by (simp add: zone_fields_def update_conv')

text \<open>
  C9: when the service and the application are found and the parameters are assembled,
  \<^verbatim>\<open>deployInstance\<close> makes the two lookups and then one call of \<^verbatim>\<open>createVm\<close>. Its
  argument is the assembled parameters with \<^verbatim>\<open>brand\<close>, \<^verbatim>\<open>ram\<close>, \<^verbatim>\<open>networks\<close> and
  \<^verbatim>\<open>server_uuid\<close> set to the fixed values, whatever the assembled parameters held
  under these names. The callback gets the provisioner's error, or none.
\<close>

theorem deploy_provisions_once:
  assumes "map_of inst ''service_uuid'' = Some (JStr svc_uuid)"
    and "getService w svc_uuid = (w1, None, Some (JObj svc))"
    and "map_of svc ''application_uuid'' = Some (JStr app_uuid)"
    and "getApplication w1 app_uuid = (w2, None, Some (JObj app))"
    and "assembleParams (Some (JObj app)) (Some (JObj svc)) (Some (JObj inst)) = Inr params"
  shows "deployInstance w inst =
           (issue w2 (CreateVm (zone_fields params)),
            called (fault w (CreateVm (zone_fields params))) None) \<and>
         new_calls w (fst (deployInstance w inst)) =
           [FindObjects SERVICES (uuid_filter svc_uuid),
            FindObjects APPLICATIONS (uuid_filter app_uuid),
            CreateVm (zone_fields params)] \<and>
         map_of (zone_fields params) =
           (map_of params)
             (''brand'' \<mapsto> JStr ''joyent-minimal'', ''ram'' \<mapsto> JNum 256,
              ''networks'' \<mapsto> JArr [JStr ''cda22a50-15bd-43cf-b379-be0cbac60cb4''],
              ''server_uuid'' \<mapsto> JStr ''44454c4c-4800-1034-804a-b2c04f354d31'')"
proof -
  have w1: "w1 = issue w (FindObjects SERVICES (uuid_filter svc_uuid))"
    using getService_world[OF assms(2)] .
  have w2: "w2 = issue w1 (FindObjects APPLICATIONS (uuid_filter app_uuid))"
    using getApplication_world[OF assms(4)] .
  have run: "deployInstance w inst =
           (issue w2 (CreateVm (zone_fields params)),
            called (fault w (CreateVm (zone_fields params))) None)"
    using assms w1 w2
    by (simp add: deployInstance_def assert_string_def resolve_service_def
        resolve_application_def provision_def after_error_def deployZone_def vmapi_createVm_def
        finished_def called_def split: option.splits)
  show ?thesis
    using run w1 w2 by (simp add: new_calls_def zone_fields_map)
qed

theorem deploy_provisions_once_witness:
  "map_of ex_inst_greedy ''service_uuid'' = Some (JStr ''s-1'') \<and>
   snd (getService ex_world ''s-1'') = (None, Some (JObj ex_svc)) \<and>
   map_of ex_svc ''application_uuid'' = Some (JStr ''a-1'') \<and>
   snd (getApplication ex_world ''a-1'') = (None, Some (JObj ex_app)) \<and>
   assembleParams (Some (JObj ex_app)) (Some (JObj ex_svc)) (Some (JObj ex_inst_greedy)) =
     Inr [(''a'', JNum 1), (''b'', JNum 2), (''c'', JNum 2), (''ram'', JNum 4096),
          (''brand'', JStr ''kvm''), (''owner_uuid'', JStr ''u-1''),
          (''image_uuid'', JStr ''img-1''), (''uuid'', JStr ''i-2'')] \<and>
   new_calls ex_world (fst (deployInstance ex_world ex_inst_greedy)) =
     [FindObjects SERVICES (uuid_filter ''s-1''), FindObjects APPLICATIONS (uuid_filter ''a-1''),
      CreateVm [(''a'', JNum 1), (''b'', JNum 2), (''c'', JNum 2), (''ram'', JNum 256),
                (''brand'', JStr ''joyent-minimal''), (''owner_uuid'', JStr ''u-1''),
                (''image_uuid'', JStr ''img-1''), (''uuid'', JStr ''i-2''),
                (''networks'', JArr [JStr ''cda22a50-15bd-43cf-b379-be0cbac60cb4'']),
                (''server_uuid'', JStr ''44454c4c-4800-1034-804a-b2c04f354d31'')]] \<and>
   snd (deployInstance ex_world ex_inst_greedy) = called None None"
proof -
  have a: "map_of ex_inst_greedy ''service_uuid'' = Some (JStr ''s-1'')"
    by (simp add: ex_inst_greedy_def)
  have b: "getService ex_world ''s-1'' =
             (issue ex_world (FindObjects SERVICES (uuid_filter ''s-1'')), None, Some (JObj ex_svc))"
    by (simp add: getService_def getObject_def findObjects_def moray_findObjects_def
        ex_world_def no_fault_def SERVICES_def filter_pattern_def uuid_filter_def
        uuid_matches_def ex_svc_def)
  have c: "map_of ex_svc ''application_uuid'' = Some (JStr ''a-1'')"
    by (simp add: ex_svc_def)
  have d: "getApplication (issue ex_world (FindObjects SERVICES (uuid_filter ''s-1''))) ''a-1'' =
             (issue (issue ex_world (FindObjects SERVICES (uuid_filter ''s-1'')))
                (FindObjects APPLICATIONS (uuid_filter ''a-1'')), None, Some (JObj ex_app))"
    by (simp add: getApplication_def getObject_def findObjects_def moray_findObjects_def
        ex_world_def no_fault_def APPLICATIONS_def filter_pattern_def uuid_filter_def
        uuid_matches_def ex_app_def)
  have d': "snd (getApplication ex_world ''a-1'') = (None, Some (JObj ex_app))"
    using d getObject_issue[of ex_world "FindObjects SERVICES (uuid_filter ''s-1'')" APPLICATIONS "''a-1''"]
    by (simp add: getApplication_def)
  have e: "assembleParams (Some (JObj ex_app)) (Some (JObj ex_svc)) (Some (JObj ex_inst_greedy)) =
     Inr [(''a'', JNum 1), (''b'', JNum 2), (''c'', JNum 2), (''ram'', JNum 4096),
          (''brand'', JStr ''kvm''), (''owner_uuid'', JStr ''u-1''),
          (''image_uuid'', JStr ''img-1''), (''uuid'', JStr ''i-2'')]"
    by (simp add: assembleParams_def and_then_def copy_params_def asserted_def assert_string_def
        ex_app_def ex_svc_def ex_inst_greedy_def)
  have f: "fault ex_world c = None" for c
    by (simp add: ex_world_def no_fault_def)
  have z: "zone_fields [(''a'', JNum 1), (''b'', JNum 2), (''c'', JNum 2), (''ram'', JNum 4096),
          (''brand'', JStr ''kvm''), (''owner_uuid'', JStr ''u-1''),
          (''image_uuid'', JStr ''img-1''), (''uuid'', JStr ''i-2'')] =
        [(''a'', JNum 1), (''b'', JNum 2), (''c'', JNum 2), (''ram'', JNum 256),
                (''brand'', JStr ''joyent-minimal''), (''owner_uuid'', JStr ''u-1''),
                (''image_uuid'', JStr ''img-1''), (''uuid'', JStr ''i-2''),
                (''networks'', JArr [JStr ''cda22a50-15bd-43cf-b379-be0cbac60cb4'']),
                (''server_uuid'', JStr ''44454c4c-4800-1034-804a-b2c04f354d31'')]"
    by (simp add: zone_fields_def)
  note main = deploy_provisions_once[OF a b c d e]
  have run: "snd (deployInstance ex_world ex_inst_greedy) = called None None"
    using main[THEN conjunct1] f by simp
  have made: "new_calls ex_world (fst (deployInstance ex_world ex_inst_greedy)) =
     [FindObjects SERVICES (uuid_filter ''s-1''), FindObjects APPLICATIONS (uuid_filter ''a-1''),
      CreateVm [(''a'', JNum 1), (''b'', JNum 2), (''c'', JNum 2), (''ram'', JNum 256),
                (''brand'', JStr ''joyent-minimal''), (''owner_uuid'', JStr ''u-1''),
                (''image_uuid'', JStr ''img-1''), (''uuid'', JStr ''i-2''),
                (''networks'', JArr [JStr ''cda22a50-15bd-43cf-b379-be0cbac60cb4'']),
                (''server_uuid'', JStr ''44454c4c-4800-1034-804a-b2c04f354d31'')]]"
    using main[THEN conjunct2, THEN conjunct1] unfolding z .
  from a b c d' e run made show ?thesis by simp
qed

lemma resolve_service_calls:
  "resolve_service inst st = (st', s) \<Longrightarrow>
   \<exists>cs. calls (dworld st') = calls (dworld st) @ cs \<and> filter is_createVm cs = []"
  by (auto simp: resolve_service_def getService_def dest!: getObject_calls
      split: prod.splits sum.splits option.splits)

lemma resolve_application_calls:
  "resolve_application st = (st', s) \<Longrightarrow>
   \<exists>cs. calls (dworld st') = calls (dworld st) @ cs \<and> filter is_createVm cs = []"
  by (auto simp: resolve_application_def getApplication_def dest!: getObject_calls
      split: prod.splits sum.splits)

lemma provision_calls:
  "provision inst st = (st', s) \<Longrightarrow>
   \<exists>cs. calls (dworld st') = calls (dworld st) @ cs \<and> length (filter is_createVm cs) \<le> 1"
  by (auto simp: provision_def deployZone_def vmapi_createVm_def
      split: prod.splits sum.splits option.splits)

lemma deploy_requests_at_most_one:
  "length (filter is_createVm (new_calls w (fst (deployInstance w inst)))) \<le> 1"
proof (cases "assert_string (map_of inst ''service_uuid'') ''instance.service_uuid''")
  case (Some x)
  then show ?thesis by (simp add: deployInstance_def new_calls_def)
next
  case None
  let ?s0 = "\<lparr>dworld = w, service = None, application = None\<rparr>"
  obtain s1 r1 where t1: "resolve_service inst ?s0 = (s1, r1)" by force
  obtain s2 r2 where t2: "resolve_application s1 = (s2, r2)" by force
  obtain s3 r3 where t3: "provision inst s2 = (s3, r3)" by force
  from resolve_service_calls[OF t1] obtain c1 where
    c1: "calls (dworld s1) = calls w @ c1" "filter is_createVm c1 = []" by auto
  from resolve_application_calls[OF t2] obtain c2 where
    c2: "calls (dworld s2) = calls (dworld s1) @ c2" "filter is_createVm c2 = []" by auto
  from provision_calls[OF t3] obtain c3 where
    c3: "calls (dworld s3) = calls (dworld s2) @ c3" "length (filter is_createVm c3) \<le> 1" by auto
  have "fst (deployInstance w inst) \<in> {dworld s1, dworld s2, dworld s3}"
    using None t1 t2 t3 by (simp add: deployInstance_def split: step.splits)
  with c1 c2 c3 show ?thesis by (auto simp: new_calls_def)
qed

section \<open>Initialization of the buckets\<close>

lemma createBucket_got_eq:
  "createBucket_got w name =
     (issue w (GetBucket name),
      case fault w (GetBucket name) of
        Some e \<Rightarrow> if err_name e \<noteq> ''BucketNotFoundError'' then Done (Some e) else AwaitCreate
      | None \<Rightarrow> if bucket_exists w name then Done None else AwaitCreate)"
  by (auto simp: createBucket_got_def moray_getBucket_def bucket_exists_def bucket_missing_def
      split: option.splits)

lemma createBucket_created_eq:
  "createBucket_created w name cfg =
     (if fault w (CreateBucket name cfg) = None \<and> \<not> bucket_exists w name
      then ((issue w (CreateBucket name cfg))\<lparr>buckets := buckets w @ [(name, [])]\<rparr>, None)
      else (issue w (CreateBucket name cfg), Some (JSError ''Error'' ''failed to create bucket'')))"
  by (auto simp: createBucket_created_def moray_createBucket_def bucket_exists_def
      split: option.splits)

lemma run_schedule_invariant:
  assumes "run_schedule cfg sched w ts = (w', ts')"
    and "I w ts"
    and "\<And>w ts i w' st. I w ts \<Longrightarrow> i < length ts \<Longrightarrow>
           createBucket_step cfg w (ts ! i) = (w', st) \<Longrightarrow> I w' (ts[i := (fst (ts ! i), st)])"
  shows "I w' ts'"
  using assms(1,2)
proof (induction sched arbitrary: w ts)
  case Nil
  then show ?case by simp
next
  case (Cons i sched)
  show ?case
  proof (cases "i < length ts")
    case True
    obtain w1 st where step: "createBucket_step cfg w (ts ! i) = (w1, st)" by force
    with True Cons.prems(1)
    have run: "run_schedule cfg sched w1 (ts[i := (fst (ts ! i), st)]) = (w', ts')" by simp
    from assms(3)[OF Cons.prems(2) True step] Cons.IH[OF run] show ?thesis by blast
  next
    case False
    with Cons show ?thesis by simp
  qed
qed

lemma step_world:
  assumes "createBucket_step cfg w (name, st) = (w', st')"
  shows "fault w' = fault w"
    and "bucket_exists w b \<Longrightarrow> bucket_exists w' b"
    and "\<not> bucket_exists w' b \<Longrightarrow> \<not> bucket_exists w b"
    and "b \<noteq> name \<Longrightarrow> bucket_exists w' b = bucket_exists w b"
  using assms
  by (cases st; auto simp: createBucket_got_eq createBucket_created_eq bucket_exists_def
      split: if_splits)+

lemma step_done_exists:
  assumes "createBucket_step cfg w (name, st) = (w', Done None)"
    and "st = Done None \<Longrightarrow> bucket_exists w name"
  shows "bucket_exists w' name"
  using assms
  by (cases st; auto simp: createBucket_got_eq createBucket_created_eq bucket_exists_def
      map_add_def split: if_splits option.splits)

lemma step_pending:
  "createBucket_step cfg w (name, st) = (w', st') \<Longrightarrow> pending st' \<le> pending st - 1"
  by (cases st; auto simp: createBucket_got_eq createBucket_created_eq
      split: if_splits option.splits)

lemma names_update:
  "i < length us \<Longrightarrow> map fst (us[i := (fst (us ! i), st)]) = map fst us"
proof -
  assume i: "i < length us"
  have "map fst (us[i := (fst (us ! i), st)]) = (map fst us)[i := (map fst us) ! i]"
    using i by (simp add: map_update)
  then show ?thesis by simp
qed

lemma run_schedule_names:
  "run_schedule cfg sched w ts = (w', ts') \<Longrightarrow> map fst ts' = map fst ts"
proof (rule run_schedule_invariant[where I = "\<lambda>w us. map fst us = map fst ts"])
  fix v us i v' st
  assume same: "map fst us = map fst ts" and i: "i < length us"
  have "map fst (us[i := (fst (us ! i), st)]) = (map fst us)[i := (map fst us) ! i]"
    using i by (simp add: map_update)
  then show "map fst (us[i := (fst (us ! i), st)]) = map fst ts"
    using same by simp
qed simp_all

lemma run_schedule_pending:
  "run_schedule cfg sched w ts = (w', ts') \<Longrightarrow> i < length ts \<Longrightarrow>
   pending (snd (ts' ! i)) \<le> pending (snd (ts ! i)) - count_list sched i"
proof (induction sched arbitrary: w ts)
  case Nil
  then show ?case by simp
next
  case (Cons j sched)
  show ?case
  proof (cases "j < length ts")
    case True
    obtain w1 st where step: "createBucket_step cfg w (ts ! j) = (w1, st)" by force
    with True Cons.prems(1)
    have run: "run_schedule cfg sched w1 (ts[j := (fst (ts ! j), st)]) = (w', ts')" by simp
    from step have dec: "pending st \<le> pending (snd (ts ! j)) - 1"
      using step_pending[of cfg w "fst (ts ! j)" "snd (ts ! j)" w1 st] by simp
    from Cons.IH[OF run] Cons.prems(2)
    have "pending (snd (ts' ! i))
            \<le> pending (snd (ts[j := (fst (ts ! j), st)] ! i)) - count_list sched i" by simp
    with dec Cons.prems(2) show ?thesis
      by (cases "i = j") (auto simp: nth_list_update)
  next
    case False
    with Cons show ?thesis by auto
  qed
qed

lemma fair_all_done:
  assumes "run_schedule cfg sched w (map (\<lambda>b. (b, AwaitGet)) names) = (w', ts')"
    and "fair sched (length names)"
  shows "list_all task_done ts'"
proof -
  have len: "length ts' = length names"
    using run_schedule_names[OF assms(1)] by (metis length_map)
  have "task_done (ts' ! i)" if "i < length names" for i
  proof -
    from assms(2) that have "2 \<le> count_list sched i"
      by (simp add: fair_def list_all_iff)
    with run_schedule_pending[OF assms(1), of i] that
    have "pending (snd (ts' ! i)) = 0" by simp
    then show ?thesis by (cases "ts' ! i"; cases "snd (ts' ! i)") auto
  qed
  with len show ?thesis by (simp add: list_all_length)
qed

lemma run_schedule_done_exists:
  assumes "run_schedule cfg sched w ts = (w', ts')"
    and "\<forall>i<length ts. snd (ts ! i) = Done None \<longrightarrow> bucket_exists w (fst (ts ! i))"
  shows "\<forall>i<length ts'. snd (ts' ! i) = Done None \<longrightarrow> bucket_exists w' (fst (ts' ! i))"
proof (rule run_schedule_invariant[OF assms(1), where
      I = "\<lambda>v us. \<forall>i<length us. snd (us ! i) = Done None \<longrightarrow> bucket_exists v (fst (us ! i))"])
  show "\<forall>i<length ts. snd (ts ! i) = Done None \<longrightarrow> bucket_exists w (fst (ts ! i))"
    by (rule assms(2))
next
  fix v us i v' st
  assume inv: "\<forall>j<length us. snd (us ! j) = Done None \<longrightarrow> bucket_exists v (fst (us ! j))"
    and i: "i < length us"
    and step: "createBucket_step cfg v (us ! i) = (v', st)"
  obtain name s where t: "us ! i = (name, s)" by force
  show "\<forall>j<length (us[i := (fst (us ! i), st)]).
          snd (us[i := (fst (us ! i), st)] ! j) = Done None \<longrightarrow>
          bucket_exists v' (fst (us[i := (fst (us ! i), st)] ! j))"
  proof (intro allI impI)
    fix j
    assume j: "j < length (us[i := (fst (us ! i), st)])"
      and d: "snd (us[i := (fst (us ! i), st)] ! j) = Done None"
    show "bucket_exists v' (fst (us[i := (fst (us ! i), st)] ! j))"
    proof (cases "j = i")
      case True
      with d i have "st = Done None" by simp
      moreover have "s = Done None \<Longrightarrow> bucket_exists v name"
        using inv i t by force
      ultimately show ?thesis
        using step_done_exists[of cfg v name s v'] step t True i by simp
    next
      case False
      with d j inv have "bucket_exists v (fst (us ! j))" by simp
      with step_world(2)[of cfg v name s v' st] step t False show ?thesis by simp
    qed
  qed
qed

lemma run_schedule_present:
  assumes "run_schedule cfg sched w ts = (w', ts')"
    and "\<forall>i<length ts. bucket_exists w (fst (ts ! i)) \<and>
           fault w (GetBucket (fst (ts ! i))) = None \<and> snd (ts ! i) = AwaitGet"
  shows "buckets w' = buckets w \<and>
         filter is_createBucket (drop (length (calls w)) (calls w')) = [] \<and>
         (\<forall>i<length ts'. \<forall>e. snd (ts' ! i) \<noteq> Done (Some e))"
proof -
  let ?I = "\<lambda>v us. buckets v = buckets w \<and> fault v = fault w \<and>
              (\<exists>cs. calls v = calls w @ cs \<and> filter is_createBucket cs = []) \<and>
              map fst us = map fst ts \<and>
              (\<forall>i<length us. snd (us ! i) = AwaitGet \<or> snd (us ! i) = Done None)"
  have "?I w' ts'"
  proof (rule run_schedule_invariant[OF assms(1), where I = ?I])
    show "?I w ts" using assms(2) by simp
  next
    fix v us i v' st
    assume inv: "?I v us" and i: "i < length us"
      and step: "createBucket_step cfg v (us ! i) = (v', st)"
    obtain name s where t: "us ! i = (name, s)" by force
    from inv have len: "length us = length ts" by (metis length_map)
    from inv i t len have name: "name = fst (ts ! i)"
      by (metis fst_conv nth_map)
    with assms(2) i len inv have ok: "bucket_exists v name" "fault v (GetBucket name) = None"
      by (simp_all add: bucket_exists_def)
    from inv i t have "s = AwaitGet \<or> s = Done None" by force
    then have res: "st = Done None \<and> (v' = v \<or> v' = issue v (GetBucket name))"
      using step t ok by (auto simp: createBucket_got_eq)
    have names: "map fst (us[i := (fst (us ! i), st)]) = map fst ts"
      using inv names_update[OF i] by simp
    from inv obtain cs where cs: "calls v = calls w @ cs" "filter is_createBucket cs = []"
      by blast
    from res cs have "\<exists>cs'. calls v' = calls w @ cs' \<and> filter is_createBucket cs' = []"
      by auto
    moreover from res inv have "buckets v' = buckets w" "fault v' = fault w" by auto
    moreover from res inv i
    have "\<forall>j<length (us[i := (fst (us ! i), st)]).
            snd (us[i := (fst (us ! i), st)] ! j) = AwaitGet \<or>
            snd (us[i := (fst (us ! i), st)] ! j) = Done None"
      by (simp add: nth_list_update)
    ultimately show "?I v' (us[i := (fst (us ! i), st)])"
      using names by simp
  qed
  then show ?thesis by auto
qed

lemma run_schedule_quiet:
  assumes "run_schedule cfg sched w ts = (w', ts')"
    and "distinct (map fst ts)"
    and "\<forall>i<length ts. fault w (GetBucket (fst (ts ! i))) = None \<and>
           fault w (CreateBucket (fst (ts ! i)) cfg) = None \<and> snd (ts ! i) = AwaitGet"
  shows "\<forall>i<length ts'. \<forall>e. snd (ts' ! i) \<noteq> Done (Some e)"
proof -
  let ?I = "\<lambda>v us. fault v = fault w \<and> map fst us = map fst ts \<and>
              (\<forall>i<length us. (snd (us ! i) = AwaitCreate \<longrightarrow> \<not> bucket_exists v (fst (us ! i))) \<and>
                              (\<forall>e. snd (us ! i) \<noteq> Done (Some e)))"
  have "?I w' ts'"
  proof (rule run_schedule_invariant[OF assms(1), where I = ?I])
    show "?I w ts" using assms(3) by simp
  next
    fix v us i v' st
    assume inv: "?I v us" and i: "i < length us"
      and step: "createBucket_step cfg v (us ! i) = (v', st)"
    obtain name s where t: "us ! i = (name, s)" by force
    from inv have len: "length us = length ts" by (metis length_map)
    from inv i t len have name: "name = fst (ts ! i)"
      by (metis fst_conv nth_map)
    with assms(3) i len inv
    have quiet: "fault v (GetBucket name) = None" "fault v (CreateBucket name cfg) = None"
      by simp_all
    from inv i t have s: "s = AwaitCreate \<Longrightarrow> \<not> bucket_exists v name" "\<And>e. s \<noteq> Done (Some e)"
      by force+
    have mine: "(st = AwaitCreate \<longrightarrow> \<not> bucket_exists v' name) \<and> (\<forall>e. st \<noteq> Done (Some e))"
      using step t quiet s
      by (cases s)
        (auto simp: createBucket_got_eq createBucket_created_eq bucket_exists_def
          split: if_splits)
    have others: "\<not> bucket_exists v' (fst (us ! j))"
      if "j < length us" "j \<noteq> i" "snd (us ! j) = AwaitCreate" for j
    proof -
      from inv that have gone: "\<not> bucket_exists v (fst (us ! j))" by simp
      have "distinct (map fst us)" using inv assms(2) by simp
      with that(1,2) i have "fst (us ! j) \<noteq> fst (us ! i)"
        by (metis distinct_conv_nth length_map nth_map)
      with step_world(4)[of cfg v name s v' st "fst (us ! j)"] step t gone
      show ?thesis by simp
    qed
    have "\<forall>j<length (us[i := (fst (us ! i), st)]).
            (snd (us[i := (fst (us ! i), st)] ! j) = AwaitCreate \<longrightarrow>
               \<not> bucket_exists v' (fst (us[i := (fst (us ! i), st)] ! j))) \<and>
            (\<forall>e. snd (us[i := (fst (us ! i), st)] ! j) \<noteq> Done (Some e))"
    proof (intro allI impI)
      fix j
      assume j: "j < length (us[i := (fst (us ! i), st)])"
      show "(snd (us[i := (fst (us ! i), st)] ! j) = AwaitCreate \<longrightarrow>
               \<not> bucket_exists v' (fst (us[i := (fst (us ! i), st)] ! j))) \<and>
            (\<forall>e. snd (us[i := (fst (us ! i), st)] ! j) \<noteq> Done (Some e))"
      proof (cases "j = i")
        case True
        with mine i t show ?thesis by simp
      next
        case False
        with others[of j] inv j show ?thesis by simp
      qed
    qed
    moreover have "fault v' = fault w"
      using step_world(1)[of cfg v name s v' st] step t inv by simp
    ultimately show "?I v' (us[i := (fst (us ! i), st)])"
      using inv names_update[OF i] by simp
  qed
  then show ?thesis by blast
qed

lemma task_errors_none:
  "\<forall>t\<in>set ts. \<forall>e. snd t \<noteq> Done (Some e) \<Longrightarrow> task_errors ts = []"
  by (induction ts rule: task_errors.induct) auto

lemma task_errors_some: "(name, Done (Some e)) \<in> set ts \<Longrightarrow> task_errors ts \<noteq> []"
  by (induction ts rule: task_errors.induct) auto

lemma all_done_no_errors:
  "list_all task_done ts \<Longrightarrow> task_errors ts = [] \<Longrightarrow> \<forall>t\<in>set ts. snd t = Done None"
  by (induction ts rule: task_errors.induct) auto

lemma multi_error_None: "multi_error es = None \<longleftrightarrow> es = []"
  by (simp add: multi_error_def split: list.splits)

lemma run_schedule_fault:
  "run_schedule cfg sched w ts = (w', ts') \<Longrightarrow> fault w' = fault w"
proof (rule run_schedule_invariant[where I = "\<lambda>v us. fault v = fault w"])
  fix v us i v' st
  assume "fault v = fault w" and "createBucket_step cfg v (us ! i) = (v', st)"
  then show "fault v' = fault w"
    using step_world(1)[of cfg v "fst (us ! i)" "snd (us ! i)" v' st] by simp
qed simp_all

lemma createBucket_existing:
  "bucket_exists w name \<Longrightarrow> fault w (GetBucket name) = None \<Longrightarrow>
   createBucket w name cfg = (issue w (GetBucket name), None)"
  by (simp add: createBucket_def createBucket_got_eq)

lemma bucket_names_distinct: "distinct [APPLICATIONS, SERVICES, INSTANCES]"
  by (simp add: APPLICATIONS_def SERVICES_def INSTANCES_def)

lemma init_success_present:
  assumes "initBuckets sched w = (w1, called None None)"
  shows "bucket_exists w1 APPLICATIONS \<and> bucket_exists w1 SERVICES \<and> bucket_exists w1 INSTANCES"
proof -
  let ?ts = "map (\<lambda>b. (b, AwaitGet)) [APPLICATIONS, SERVICES, INSTANCES]"
  obtain v ts' where run: "run_schedule bucket_cfg sched w ?ts = (v, ts')" by force
  with assms have fin: "v = w1" "list_all task_done ts'" "task_errors ts' = []"
    by (auto simp: initBuckets_def forEachParallel_def called_def multi_error_None
        split: if_splits)
  have names: "map fst ts' = [APPLICATIONS, SERVICES, INSTANCES]"
    using run_schedule_names[OF run] by simp
  then have len: "length ts' = 3" by (metis length_map length_Cons list.size(3) numeral_3_eq_3)
  have "\<forall>i<length ts'. snd (ts' ! i) = Done None \<longrightarrow> bucket_exists v (fst (ts' ! i))"
    by (rule run_schedule_done_exists[OF run]) (simp add: nth_Cons')
  moreover have "\<forall>t\<in>set ts'. snd t = Done None"
    using all_done_no_errors[OF fin(2,3)] .
  ultimately have ex: "bucket_exists w1 (fst (ts' ! i))" if "i < 3" for i
    using that len fin(1) by simp
  have nth: "fst (ts' ! i) = [APPLICATIONS, SERVICES, INSTANCES] ! i" if "i < 3" for i
    using names that len by (metis nth_map)
  from ex[of 0] ex[of 1] ex[of 2] nth[of 0] nth[of 1] nth[of 2] show ?thesis by simp
qed

lemma init_quiet_succeeds:
  assumes "store_answers w" and "fair sched 3"
  shows "snd (initBuckets sched w) = called None None"
    and "fault (fst (initBuckets sched w)) = fault w"
proof -
  let ?ts = "map (\<lambda>b. (b, AwaitGet)) [APPLICATIONS, SERVICES, INSTANCES]"
  obtain v ts' where run: "run_schedule bucket_cfg sched w ?ts = (v, ts')" by force
  have alldone: "list_all task_done ts'"
    using fair_all_done[OF run] assms(2) by (simp add: numeral_3_eq_3)
  have d: "distinct (map fst ?ts)"
    using bucket_names_distinct by simp
  have q: "\<forall>i<length ?ts. fault w (GetBucket (fst (?ts ! i))) = None \<and>
           fault w (CreateBucket (fst (?ts ! i)) bucket_cfg) = None \<and> snd (?ts ! i) = AwaitGet"
    using assms(1) by (auto simp: store_answers_def nth_Cons' less_Suc_eq)
  have "\<forall>i<length ts'. \<forall>e. snd (ts' ! i) \<noteq> Done (Some e)"
    by (rule run_schedule_quiet[OF run d q])
  then have "task_errors ts' = []"
    by (intro task_errors_none) (metis in_set_conv_nth)
  with run alldone show "snd (initBuckets sched w) = called None None"
    by (simp add: initBuckets_def forEachParallel_def called_def multi_error_def)
  from run run_schedule_fault[OF run] show "fault (fst (initBuckets sched w)) = fault w"
    by (simp add: initBuckets_def forEachParallel_def)
qed

lemma init_again_creates_nothing:
  assumes "bucket_exists w APPLICATIONS" "bucket_exists w SERVICES" "bucket_exists w INSTANCES"
    and "fault w (GetBucket APPLICATIONS) = None" "fault w (GetBucket SERVICES) = None"
      "fault w (GetBucket INSTANCES) = None"
    and "fair sched 3"
  shows "snd (initBuckets sched w) = called None None \<and>
         buckets (fst (initBuckets sched w)) = buckets w \<and>
         filter is_createBucket (new_calls w (fst (initBuckets sched w))) = []"
proof -
  let ?ts = "map (\<lambda>b. (b, AwaitGet)) [APPLICATIONS, SERVICES, INSTANCES]"
  obtain v ts' where run: "run_schedule bucket_cfg sched w ?ts = (v, ts')" by force
  have alldone: "list_all task_done ts'"
    using fair_all_done[OF run] assms(7) by (simp add: numeral_3_eq_3)
  have quiet: "buckets v = buckets w \<and>
         filter is_createBucket (drop (length (calls w)) (calls v)) = [] \<and>
         (\<forall>i<length ts'. \<forall>e. snd (ts' ! i) \<noteq> Done (Some e))"
    using assms(1-6)
    by (intro run_schedule_present[OF run]) (auto simp: nth_Cons' less_Suc_eq)
  then have "task_errors ts' = []"
    by (intro task_errors_none) (metis in_set_conv_nth)
  with run alldone quiet show ?thesis
    by (simp add: initBuckets_def forEachParallel_def called_def multi_error_def new_calls_def)
qed

lemma createBucket_eq:
  "snd (createBucket w name cfg) =
     (case snd (createBucket_got w name) of
        Done r \<Rightarrow> r
      | other \<Rightarrow>
          (if fault w (CreateBucket name cfg) = None \<and> \<not> bucket_exists w name then None
           else Some (JSError ''Error'' ''failed to create bucket'')))"
  by (auto simp: createBucket_def createBucket_got_eq createBucket_created_eq bucket_exists_def
      split: option.splits bucket_task.splits if_splits)

lemma run_schedule_independent:
  assumes "run_schedule cfg sched w ts = (w', ts')"
    and "distinct (map fst ts)"
    and "\<forall>i<length ts. snd (ts ! i) = AwaitGet"
  shows "\<forall>i<length ts'. \<forall>r. snd (ts' ! i) = Done r \<longrightarrow> r = snd (createBucket w (fst (ts' ! i)) cfg)"
proof -
  let ?ok = "\<lambda>v name st.
      bucket_exists v name = bucket_exists w name \<and> st = AwaitGet \<or>
      bucket_exists v name = bucket_exists w name \<and> st = AwaitCreate \<and>
        snd (createBucket_got w name) = AwaitCreate \<or>
      (\<exists>r. st = Done r \<and> r = snd (createBucket w name cfg))"
  let ?I = "\<lambda>v us. fault v = fault w \<and> map fst us = map fst ts \<and>
              (\<forall>i<length us. ?ok v (fst (us ! i)) (snd (us ! i)))"
  have "?I w' ts'"
  proof (rule run_schedule_invariant[OF assms(1), where I = ?I])
    show "?I w ts" using assms(3) by simp
  next
    fix v us i v' st
    assume inv: "?I v us" and i: "i < length us"
      and step: "createBucket_step cfg v (us ! i) = (v', st)"
    obtain name s where t: "us ! i = (name, s)" by force
    from inv i t have s: "?ok v name s" by force
    from inv have f: "fault v = fault w" by simp
    have mine: "?ok v' name st"
      using step t s f
      by (cases s)
        (auto simp: createBucket_got_eq createBucket_created_eq createBucket_eq bucket_exists_def
          map_add_def split: if_splits option.splits)
    have others: "?ok v' (fst (us ! j)) (snd (us ! j))" if "j < length us" "j \<noteq> i" for j
    proof -
      have "distinct (map fst us)" using inv assms(2) by simp
      with that i have "fst (us ! j) \<noteq> name"
        using t by (metis distinct_conv_nth length_map nth_map fst_conv)
      then have "bucket_exists v' (fst (us ! j)) = bucket_exists v (fst (us ! j))"
        using step_world(4)[of cfg v name s v' st] step t by simp
      with inv that(1) show ?thesis by auto
    qed
    have "\<forall>j<length (us[i := (fst (us ! i), st)]).
            ?ok v' (fst (us[i := (fst (us ! i), st)] ! j)) (snd (us[i := (fst (us ! i), st)] ! j))"
    proof (intro allI impI)
      fix j
      assume j: "j < length (us[i := (fst (us ! i), st)])"
      show "?ok v' (fst (us[i := (fst (us ! i), st)] ! j)) (snd (us[i := (fst (us ! i), st)] ! j))"
      proof (cases "j = i")
        case True
        with mine i t show ?thesis by simp
      next
        case False
        with others[of j] j show ?thesis by simp
      qed
    qed
    moreover have "fault v' = fault w"
      using step_world(1)[of cfg v name s v' st] step t f by simp
    ultimately show "?I v' (us[i := (fst (us ! i), st)])"
      using inv names_update[OF i] by simp
  qed
  then show ?thesis by auto
qed

lemma forEachParallel_fair:
  assumes "fair sched (length names)" and "distinct names"
  shows "snd (forEachParallel cfg sched names w) =
           map (\<lambda>b. (b, Done (snd (createBucket w b cfg)))) names"
proof -
  let ?ts = "map (\<lambda>b. (b, AwaitGet)) names"
  obtain v ts' where run: "run_schedule cfg sched w ?ts = (v, ts')" by force
  have names: "map fst ts' = names"
    using run_schedule_names[OF run] by (simp add: comp_def)
  then have len: "length ts' = length names" by (metis length_map)
  have alldone: "list_all task_done ts'"
    using fair_all_done[OF run assms(1)] .
  have indep: "\<forall>i<length ts'. \<forall>r. snd (ts' ! i) = Done r \<longrightarrow>
                 r = snd (createBucket w (fst (ts' ! i)) cfg)"
    using assms(2) by (intro run_schedule_independent[OF run]) (simp_all add: comp_def)
  have "ts' ! i = (names ! i, Done (snd (createBucket w (names ! i) cfg)))"
    if "i < length names" for i
  proof -
    from that len names have n: "fst (ts' ! i) = names ! i" by (metis nth_map)
    from alldone that len have "task_done (ts' ! i)" by (simp add: list_all_length)
    then obtain r where "snd (ts' ! i) = Done r"
      by (cases "ts' ! i"; cases "snd (ts' ! i)") auto
    with indep that len n show ?thesis by (metis prod.collapse)
  qed
  with len have "ts' = map (\<lambda>b. (b, Done (snd (createBucket w b cfg)))) names"
    by (intro nth_equalityI) simp_all
  with run show ?thesis by (simp add: forEachParallel_def)
qed

lemma initBuckets_fair:
  assumes "fair sched 3"
  shows "snd (initBuckets sched w) =
           called (multi_error (task_errors
             (map (\<lambda>b. (b, Done (snd (createBucket w b bucket_cfg))))
                [APPLICATIONS, SERVICES, INSTANCES]))) None"
proof -
  obtain v ts where run:
    "forEachParallel bucket_cfg sched [APPLICATIONS, SERVICES, INSTANCES] w = (v, ts)" by force
  have "ts = map (\<lambda>b. (b, Done (snd (createBucket w b bucket_cfg))))
                [APPLICATIONS, SERVICES, INSTANCES]"
    using forEachParallel_fair[of sched "[APPLICATIONS, SERVICES, INSTANCES]" bucket_cfg w]
      assms bucket_names_distinct run by (simp add: numeral_3_eq_3)
  with run show ?thesis
    by (simp add: initBuckets_def called_def)
qed

lemma init_fails_with_one:
  assumes "b \<in> set [APPLICATIONS, SERVICES, INSTANCES]"
    and "snd (createBucket w b bucket_cfg) = Some e"
    and "fair sched 3"
  shows "\<exists>err. snd (initBuckets sched w) = called (Some err) None"
proof -
  let ?ts = "map (\<lambda>b. (b, Done (snd (createBucket w b bucket_cfg))))
                [APPLICATIONS, SERVICES, INSTANCES]"
  from assms(1,2) have "(b, Done (Some e)) \<in> set ?ts" by auto
  from task_errors_some[OF this] obtain x xs where "task_errors ?ts = x # xs"
    by (cases "task_errors ?ts") auto
  then show ?thesis
    unfolding initBuckets_fair[OF assms(3)] by (simp add: multi_error_def exI)
qed

text \<open>
  C8: initialization of the buckets is idempotent. \<^verbatim>\<open>createBucket\<close> of a bucket that the
  store reports as present makes the one \<^verbatim>\<open>getBucket\<close> call, creates nothing and
  succeeds. Whenever \<^verbatim>\<open>initBuckets\<close> calls back without error, the three buckets are
  there. On a store that answers, for every order in which the answers arrive,
  \<^verbatim>\<open>initBuckets\<close> succeeds, and run again it succeeds again, with no
  \<^verbatim>\<open>createBucket\<close> call and the buckets unchanged. When \<^verbatim>\<open>createBucket\<close> fails for one
  of the three buckets, \<^verbatim>\<open>initBuckets\<close> calls back with an error, in whatever order
  the answers arrive.
\<close>

theorem initBuckets_idempotent:
  "(bucket_exists w name \<and> fault w (GetBucket name) = None \<longrightarrow>
      createBucket w name cfg = (issue w (GetBucket name), None)) \<and>
   (initBuckets sched w = (w1, called None None) \<longrightarrow>
      bucket_exists w1 APPLICATIONS \<and> bucket_exists w1 SERVICES \<and> bucket_exists w1 INSTANCES) \<and>
   (store_answers w \<and> fair first 3 \<and> fair second 3 \<longrightarrow>
      (case initBuckets first w of
         (w', out) \<Rightarrow>
           out = called None None \<and>
           bucket_exists w' APPLICATIONS \<and> bucket_exists w' SERVICES \<and>
           bucket_exists w' INSTANCES \<and>
           (case initBuckets second w' of
              (w'', out') \<Rightarrow>
                out' = called None None \<and> buckets w'' = buckets w' \<and>
                filter is_createBucket (new_calls w' w'') = []))) \<and>
   (b \<in> set [APPLICATIONS, SERVICES, INSTANCES] \<and>
    snd (createBucket w b bucket_cfg) = Some e \<and> fair sched 3 \<longrightarrow>
      (\<exists>err. snd (initBuckets sched w) = called (Some err) None))"
proof (intro conjI impI)
  assume "bucket_exists w name \<and> fault w (GetBucket name) = None"
  then show "createBucket w name cfg = (issue w (GetBucket name), None)"
    by (simp add: createBucket_existing)
next
  assume "initBuckets sched w = (w1, called None None)"
  then show "bucket_exists w1 APPLICATIONS" "bucket_exists w1 SERVICES"
    "bucket_exists w1 INSTANCES"
    using init_success_present by blast+
next
  assume a: "store_answers w \<and> fair first 3 \<and> fair second 3"
  obtain w' out where r1: "initBuckets first w = (w', out)" by force
  obtain w'' out' where r2: "initBuckets second w' = (w'', out')" by force
  from a r1 init_quiet_succeeds[of w first]
  have ok1: "out = called None None" "fault w' = fault w" by simp_all
  with r1 init_success_present[of first w w']
  have present: "bucket_exists w' APPLICATIONS" "bucket_exists w' SERVICES"
    "bucket_exists w' INSTANCES" by simp_all
  from a ok1(2)
  have quiet: "fault w' (GetBucket APPLICATIONS) = None" "fault w' (GetBucket SERVICES) = None"
    "fault w' (GetBucket INSTANCES) = None"
    by (simp_all add: store_answers_def)
  from init_again_creates_nothing[OF present quiet, of second] a r2
  have "out' = called None None \<and> buckets w'' = buckets w' \<and>
        filter is_createBucket (new_calls w' w'') = []" by simp
  with r1 r2 ok1 present
  show "case initBuckets first w of
         (w', out) \<Rightarrow>
           out = called None None \<and>
           bucket_exists w' APPLICATIONS \<and> bucket_exists w' SERVICES \<and>
           bucket_exists w' INSTANCES \<and>
           (case initBuckets second w' of
              (w'', out') \<Rightarrow>
                out' = called None None \<and> buckets w'' = buckets w' \<and>
                filter is_createBucket (new_calls w' w'') = [])"
    by simp
next
  assume "b \<in> set [APPLICATIONS, SERVICES, INSTANCES] \<and>
    snd (createBucket w b bucket_cfg) = Some e \<and> fair sched 3"
  then show "\<exists>err. snd (initBuckets sched w) = called (Some err) None"
    using init_fails_with_one by blast
qed

lemma ex_init_facts:
  "bucket_exists ex_world APPLICATIONS"
  "fault ex_world (GetBucket APPLICATIONS) = None"
  "store_answers ex_fresh"
  "fair [0, 1, 2, 0, 1, 2] 3"
  "fair [2, 2, 1, 1, 0, 0] 3"
  "snd (createBucket ex_outage SERVICES bucket_cfg) = Some outage"
  "SERVICES \<in> set [APPLICATIONS, SERVICES, INSTANCES]"
  by code_simp+

theorem initBuckets_idempotent_witness:
  "bucket_exists ex_world APPLICATIONS \<and> fault ex_world (GetBucket APPLICATIONS) = None \<and>
   createBucket ex_world APPLICATIONS bucket_cfg = (issue ex_world (GetBucket APPLICATIONS), None) \<and>
   store_answers ex_fresh \<and> fair [0, 1, 2, 0, 1, 2] 3 \<and> fair [2, 2, 1, 1, 0, 0] 3 \<and>
   (case initBuckets [0, 1, 2, 0, 1, 2] ex_fresh of
      (w', out) \<Rightarrow>
        out = called None None \<and>
        bucket_exists w' APPLICATIONS \<and> bucket_exists w' SERVICES \<and>
        bucket_exists w' INSTANCES \<and>
        (case initBuckets [2, 2, 1, 1, 0, 0] w' of
           (w'', out') \<Rightarrow>
             out' = called None None \<and> buckets w'' = buckets w' \<and>
             filter is_createBucket (new_calls w' w'') = [])) \<and>
   snd (createBucket ex_outage SERVICES bucket_cfg) = Some outage \<and>
   (\<exists>err. snd (initBuckets [2, 2, 1, 1, 0, 0] ex_outage) = called (Some err) None)"
proof -
  have failed: "\<exists>err. snd (initBuckets [2, 2, 1, 1, 0, 0] ex_outage) = called (Some err) None"
    by (rule initBuckets_idempotent[where w = ex_outage and sched = "[2, 2, 1, 1, 0, 0]"
          and b = SERVICES and e = outage,
          THEN conjunct2, THEN conjunct2, THEN conjunct2, THEN mp])
      (intro conjI ex_init_facts(5-7))
  have existing: "createBucket ex_world APPLICATIONS bucket_cfg =
                    (issue ex_world (GetBucket APPLICATIONS), None)"
    by (rule initBuckets_idempotent[where w = ex_world and name = APPLICATIONS
          and cfg = bucket_cfg, THEN conjunct1, THEN mp])
      (intro conjI ex_init_facts(1,2))
  have twice: "case initBuckets [0, 1, 2, 0, 1, 2] ex_fresh of
      (w', out) \<Rightarrow>
        out = called None None \<and>
        bucket_exists w' APPLICATIONS \<and> bucket_exists w' SERVICES \<and>
        bucket_exists w' INSTANCES \<and>
        (case initBuckets [2, 2, 1, 1, 0, 0] w' of
           (w'', out') \<Rightarrow>
             out' = called None None \<and> buckets w'' = buckets w' \<and>
             filter is_createBucket (new_calls w' w'') = [])"
    by (rule initBuckets_idempotent[where w = ex_fresh and first = "[0, 1, 2, 0, 1, 2]"
          and second = "[2, 2, 1, 1, 0, 0]", THEN conjunct2, THEN conjunct2, THEN conjunct1,
          THEN mp])
      (intro conjI ex_init_facts(3-5))
  from existing twice failed ex_init_facts show ?thesis by simp
qed

end
